theory Spec2Isabelle
  imports Complex_Main "HOL-Library.Multiset" "HOL-Library.Sublist"
begin

section \<open>Data model of the transparent price cache\<close>

text \<open>
  The repository holds the package \<^verbatim>\<open>sample1\<close> in two revisions. The completed one
  is the Go source that follows the prose in \<^verbatim>\<open>README.md\<close> (lines 23 to 114 of that
  file; line numbers of the completed revision are line numbers of \<^verbatim>\<open>README.md\<close>): it
  keeps a \<^verbatim>\<open>PriceCacheEntry\<close> with a timestamp per item and checks it against
  \<^verbatim>\<open>maxAge\<close>. The earlier one is \<^verbatim>\<open>cache.go\<close>: it stores the bare price and still
  carries the \<^verbatim>\<open>TODO\<close> for the age check. Both are embedded here. The names of the
  completed revision are the names of the source; those of \<^verbatim>\<open>cache.go\<close> end in
  \<open>_todo\<close>.

  Prices are \<^verbatim>\<open>float64\<close> values that the program only copies (it never computes with
  them or compares them), so they are modelled as reals and \<open>0\<close> is the zero value; the
  infinities and the values that are not numbers, which copying treats like every other
  value, are left out.
  A \<^verbatim>\<open>time.Time\<close> is the number of nanoseconds on the UTC wall clock and a
  \<^verbatim>\<open>time.Duration\<close> a number of nanoseconds; \<^verbatim>\<open>Add\<close> and \<^verbatim>\<open>Before\<close> are
  addition and strict order (the saturation of \<^verbatim>\<open>Add\<close> at the ends of the
  representable range is out of reach of a wall-clock reading plus a 64 bit duration).
\<close>

type_synonym float64 = real
type_synonym Time = int
type_synonym Duration = int

definition Add :: "Time \<Rightarrow> Duration \<Rightarrow> Time" where
  "Add t d = t + d"

definition Before :: "Time \<Rightarrow> Time \<Rightarrow> bool" where
  "Before t u \<longleftrightarrow> t < u"

text \<open>
  Go errors. \<^verbatim>\<open>errors.New\<close> and \<^verbatim>\<open>fmt.Errorf\<close> without the verb \<^verbatim>\<open>%w\<close> build a
  value that holds a message only; \<^verbatim>\<open>fmt.Errorf\<close> with \<^verbatim>\<open>%w\<close> builds one that also
  holds the error it wraps, which \<^verbatim>\<open>errors.Unwrap\<close> gives back.
\<close>

datatype error = errorString string | wrapError string error

fun Error :: "error \<Rightarrow> string" where
  "Error (errorString s) = s"
| "Error (wrapError s e) = s"

fun Unwrap :: "error \<Rightarrow> error option" where
  "Unwrap (errorString s) = None"
| "Unwrap (wrapError s e) = Some e"

text \<open>
  \<^verbatim>\<open>fmt.Errorf(format, arg)\<close> for a format that ends in its only verb \<^verbatim>\<open>%v\<close> and a
  string operand: the text before the verb, followed by the operand.
\<close>

definition Errorf :: "string \<Rightarrow> string \<Rightarrow> error" where
  "Errorf before_verb arg = errorString (before_verb @ arg)"

record PriceCacheEntry =
  price :: float64
  timestamp :: Time

text \<open>
  The values of a \<^verbatim>\<open>sync.Map\<close> have the static type \<^verbatim>\<open>any\<close>. The dynamic types
  that matter are \<^verbatim>\<open>PriceCacheEntry\<close> (what the completed revision stores),
  \<^verbatim>\<open>float64\<close> (what the earlier revision stores) and everything else.
\<close>

datatype any = AnyPriceCacheEntry PriceCacheEntry | AnyFloat64 float64 | AnyOther

type_synonym syncMap = "string \<rightharpoonup> any"

definition Load :: "syncMap \<Rightarrow> string \<Rightarrow> any option" where
  "Load m key = m key"

definition Store :: "syncMap \<Rightarrow> string \<Rightarrow> any \<Rightarrow> syncMap" where
  "Store m key v = m(key \<mapsto> v)"

definition Delete :: "syncMap \<Rightarrow> string \<Rightarrow> syncMap" where
  "Delete m key = m(key := None)"

text \<open>
  \<^verbatim>\<open>PriceService\<close> is an interface with the one method \<^verbatim>\<open>GetPriceFor\<close>. Its
  implementation may keep state of its own (of type \<open>'s\<close>), which a call reads and
  updates.
\<close>

type_synonym 's PriceService = "string \<Rightarrow> 's \<Rightarrow> (error + float64) \<times> 's"

record 's TransparentCache =
  actualPriceService :: "'s PriceService"
  maxAge :: Duration
  prices :: syncMap

definition NewTransparentCache :: "'s PriceService \<Rightarrow> Duration \<Rightarrow> 's TransparentCache" where
  "NewTransparentCache svc age =
     \<lparr>actualPriceService = svc, maxAge = age, prices = Map.empty\<rparr>"

text \<open>
  What a call can read and change: the cache, the state of the service behind it, and
  (for observation only) the item codes the service has been called with, oldest first.
\<close>

record 's world =
  cache :: "'s TransparentCache"
  backend :: "'s"
  upstream_calls :: "string list"

definition call_service :: "string \<Rightarrow> 's world \<Rightarrow> (error + float64) \<times> 's world" where
  "call_service itemCode w =
     (case actualPriceService (cache w) itemCode (backend w) of
        (r, s) \<Rightarrow> (r, w\<lparr>backend := s, upstream_calls := upstream_calls w @ [itemCode]\<rparr>))"

definition set_prices :: "syncMap \<Rightarrow> 's world \<Rightarrow> 's world" where
  "set_prices m w = w\<lparr>cache := (cache w)\<lparr>prices := m\<rparr>\<rparr>"

section \<open>The completed revision: GetPriceFor\<close>

text \<open>
  Lines 79 to 88 of the completed revision: the call to the service, reached when no
  entry was found or the entry found has just been evicted.
\<close>

definition from_service :: "Time \<Rightarrow> string \<Rightarrow> 's world \<Rightarrow> (error + float64) \<times> 's world" where
  "from_service now itemCode w =
     (case call_service itemCode w of
        (Inl e, w') \<Rightarrow> (Inl (Errorf ''getting price from service : '' (Error e)), w')
      | (Inr p, w') \<Rightarrow>
          (let priceCacheEntry = \<lparr>price = p, timestamp = now\<rparr>
           in (Inr (price priceCacheEntry),
               set_prices (Store (prices (cache w')) itemCode (AnyPriceCacheEntry priceCacheEntry)) w')))"

text \<open>
  Lines 62 to 89. \<open>now\<close> is the reading of \<^verbatim>\<open>time.Now().UTC()\<close> in line 65.
\<close>

definition GetPriceFor :: "Time \<Rightarrow> string \<Rightarrow> 's world \<Rightarrow> (error + float64) \<times> 's world" where
  "GetPriceFor now itemCode w =
     (case Load (prices (cache w)) itemCode of
        None \<Rightarrow> from_service now itemCode w
      | Some retrievedPriceCacheEntry \<Rightarrow>
          (case retrievedPriceCacheEntry of
             AnyPriceCacheEntry priceCacheEntry \<Rightarrow>
               (let expDate = Add (timestamp priceCacheEntry) (maxAge (cache w))
                in if Before now expDate then (Inr (price priceCacheEntry), w)
                   else from_service now itemCode
                          (set_prices (Delete (prices (cache w)) itemCode) w))
           | _ \<Rightarrow> (Inl (errorString ''error when casting''), w)))"

section \<open>Goroutines\<close>

text \<open>
  \<^verbatim>\<open>GetPricesFor\<close> starts one goroutine per item code and waits for all of them.
  What the goroutines of one call share is the world (the \<^verbatim>\<open>sync.Map\<close> and the
  service), the slice \<^verbatim>\<open>results\<close>, appended to under the mutex, and the error of the
  \<^verbatim>\<open>errgroup.Group\<close>, which keeps the error of the first goroutine that returns one.
  \<open>returned\<close> is for observation only: the outcomes of the goroutines in the order in
  which they returned.
\<close>

record 's group =
  shared :: "'s world"
  results :: "float64 list"
  err :: "error option"
  returned :: "(error + float64) list"

text \<open>
  A schedule lists, in order, which goroutine takes its next atomic action and what the
  clock shows then. \<open>adv\<close> is the action of a goroutine at its place; an entry of the
  schedule for a goroutine that does not exist changes nothing.
\<close>

type_synonym schedule = "(nat \<times> Time) list"

definition step ::
  "(Time \<Rightarrow> 'tk \<Rightarrow> 's group \<Rightarrow> 'tk \<times> 's group) \<Rightarrow> nat \<times> Time
     \<Rightarrow> 'tk list \<times> 's group \<Rightarrow> 'tk list \<times> 's group" where
  "step adv ev cfg =
     (case (ev, cfg) of ((i, t), (tks, g)) \<Rightarrow>
        if i < length tks
        then (case adv t (tks ! i) g of (tk, g') \<Rightarrow> (tks[i := tk], g'))
        else (tks, g))"

fun run ::
  "(Time \<Rightarrow> 'tk \<Rightarrow> 's group \<Rightarrow> 'tk \<times> 's group) \<Rightarrow> schedule
     \<Rightarrow> 'tk list \<times> 's group \<Rightarrow> 'tk list \<times> 's group" where
  "run adv [] cfg = cfg"
| "run adv (ev # sched) cfg = run adv sched (step adv ev cfg)"

text \<open>
  The schedule that runs \<open>n\<close> goroutines one after the other, each for six actions (no
  goroutine takes more), all reading the same clock.
\<close>

definition one_by_one :: "nat \<Rightarrow> Time \<Rightarrow> schedule" where
  "one_by_one n t = concat (map (\<lambda>i. replicate 6 (i, t)) [0..<n])"


text \<open>Two readings of a list of outcomes: the prices in it, and its first error.\<close>

fun prices_of :: "(error + float64) list \<Rightarrow> float64 list" where
  "prices_of [] = []"
| "prices_of (Inr p # rs) = p # prices_of rs"
| "prices_of (Inl e # rs) = prices_of rs"

fun first_error :: "(error + float64) list \<Rightarrow> error option" where
  "first_error [] = None"
| "first_error (Inl e # rs) = Some e"
| "first_error (Inr p # rs) = first_error rs"

section \<open>The completed revision: GetPricesFor\<close>

text \<open>
  Lines 93 to 114. The goroutines run the body of \<^verbatim>\<open>GetPriceFor\<close> concurrently, so
  that body is cut here at its accesses to what they share: a goroutine is at one of the
  following places and holds the values of its local variables there. The operations of
  the \<^verbatim>\<open>sync.Map\<close> are atomic, and so is the append, which the mutex guards. The call to
  the service is taken as one action too: the service has to be safe for concurrent use,
  so that concurrent calls act on its state one after the other.
\<close>

datatype task =
    AtNow string                  \<comment> \<open>line 65, about to read the clock\<close>
  | AtLoad string Time            \<comment> \<open>line 66, about to load the entry\<close>
  | AtDelete string Time          \<comment> \<open>line 77, about to evict the expired entry\<close>
  | AtService string Time         \<comment> \<open>line 79, about to call the service\<close>
  | AtStore string Time float64   \<comment> \<open>line 87, about to store the fresh entry\<close>
  | AtAppend float64              \<comment> \<open>lines 104 to 107, about to append the price and return nil\<close>
  | AtReturn error                \<comment> \<open>line 102, about to return the error to the group\<close>
  | Finished "error + float64"    \<comment> \<open>returned, with the outcome of its \<^verbatim>\<open>GetPriceFor\<close>\<close>

text \<open>
  One atomic action of a goroutine at a given place; \<open>t\<close> is what the clock shows, read
  only by the action of line 65.
\<close>

fun advance :: "Time \<Rightarrow> task \<Rightarrow> 's group \<Rightarrow> task \<times> 's group" where
  "advance t (AtNow ic) g = (AtLoad ic t, g)"
| "advance t (AtLoad ic now) g =
     (case Load (prices (cache (shared g))) ic of
        None \<Rightarrow> (AtService ic now, g)
      | Some retrievedPriceCacheEntry \<Rightarrow>
          (case retrievedPriceCacheEntry of
             AnyPriceCacheEntry priceCacheEntry \<Rightarrow>
               (let expDate = Add (timestamp priceCacheEntry) (maxAge (cache (shared g)))
                in if Before now expDate then (AtAppend (price priceCacheEntry), g)
                   else (AtDelete ic now, g))
           | _ \<Rightarrow> (AtReturn (errorString ''error when casting''), g)))"
| "advance t (AtDelete ic now) g =
     (AtService ic now, g\<lparr>shared := set_prices (Delete (prices (cache (shared g))) ic) (shared g)\<rparr>)"
| "advance t (AtService ic now) g =
     (case call_service ic (shared g) of
        (Inl e, w') \<Rightarrow>
          (AtReturn (Errorf ''getting price from service : '' (Error e)), g\<lparr>shared := w'\<rparr>)
      | (Inr p, w') \<Rightarrow> (AtStore ic now p, g\<lparr>shared := w'\<rparr>))"
| "advance t (AtStore ic now p) g =
     (let priceCacheEntry = \<lparr>price = p, timestamp = now\<rparr>
      in (AtAppend (price priceCacheEntry),
          g\<lparr>shared := set_prices (Store (prices (cache (shared g))) ic
                                (AnyPriceCacheEntry priceCacheEntry)) (shared g)\<rparr>))"
| "advance t (AtAppend p) g =
     (Finished (Inr p), g\<lparr>results := results g @ [p], returned := returned g @ [Inr p]\<rparr>)"
| "advance t (AtReturn e) g =
     (Finished (Inl e),
      g\<lparr>err := (case err g of None \<Rightarrow> Some e | Some first \<Rightarrow> Some first),
        returned := returned g @ [Inl e]\<rparr>)"
| "advance t (Finished r) g = (Finished r, g)"

text \<open>Lines 94 to 109: the group, the empty slice and one goroutine per item code.\<close>

definition spawn :: "string list \<Rightarrow> 's world \<Rightarrow> task list \<times> 's group" where
  "spawn itemCodes w =
     (map AtNow itemCodes, \<lparr>shared = w, results = [], err = None, returned = []\<rparr>)"

fun is_Finished :: "task \<Rightarrow> bool" where
  "is_Finished (Finished r) = True"
| "is_Finished _ = False"

text \<open>
  Lines 110 to 113: \<^verbatim>\<open>g.Wait()\<close> returns once every goroutine has returned, and gives
  the error of the group; the slice is returned with it, error or not. Under a schedule
  that leaves a goroutine unfinished the call has not returned: the value is \<open>None\<close>.
\<close>

definition GetPricesFor ::
  "schedule \<Rightarrow> string list \<Rightarrow> 's world \<Rightarrow> ((float64 list \<times> error option) \<times> 's world) option" where
  "GetPricesFor sched itemCodes w =
     (case run advance sched (spawn itemCodes w) of
        (tks, g) \<Rightarrow>
          if list_all is_Finished tks then Some ((results g, err g), shared g) else None)"

text \<open>
  For the statements: the goroutines of a call at the end of a schedule, and their
  outcomes in the order of return.
\<close>

definition resolutions :: "schedule \<Rightarrow> string list \<Rightarrow> 's world \<Rightarrow> task list" where
  "resolutions sched itemCodes w = fst (run advance sched (spawn itemCodes w))"

definition completions :: "schedule \<Rightarrow> string list \<Rightarrow> 's world \<Rightarrow> (error + float64) list" where
  "completions sched itemCodes w = returned (snd (run advance sched (spawn itemCodes w)))"

fun outcome :: "task \<Rightarrow> (error + float64) list" where
  "outcome (Finished r) = [r]"
| "outcome _ = []"

definition outcomes :: "task list \<Rightarrow> (error + float64) list" where
  "outcomes tks = concat (map outcome tks)"



text \<open>Sequences of calls on one cache, each call run to its return.\<close>

datatype call = CallGetPriceFor Time string | CallGetPricesFor schedule "string list"

fun after_call :: "call \<Rightarrow> 's world \<Rightarrow> 's world option" where
  "after_call (CallGetPriceFor now itemCode) w = Some (snd (GetPriceFor now itemCode w))"
| "after_call (CallGetPricesFor sched itemCodes) w =
     map_option snd (GetPricesFor sched itemCodes w)"

fun after_calls :: "call list \<Rightarrow> 's world \<Rightarrow> 's world option" where
  "after_calls [] w = Some w"
| "after_calls (c # cs) w =
     (case after_call c w of None \<Rightarrow> None | Some w' \<Rightarrow> after_calls cs w')"

section \<open>The revision of cache.go\<close>

text \<open>
  Lines 34 to 46 of \<^verbatim>\<open>cache.go\<close>. The entry is the bare price, and an entry found is
  returned whatever its age (the \<^verbatim>\<open>TODO\<close> of line 37). The type assertions of lines 38
  and 59 have no second result, so they panic on a value that is not a \<^verbatim>\<open>float64\<close>:
  the outcome is then \<open>None\<close>.
\<close>

definition GetPriceFor_todo :: "string \<Rightarrow> 's world \<Rightarrow> (error + float64) option \<times> 's world" where
  "GetPriceFor_todo itemCode w =
     (case Load (prices (cache w)) itemCode of
        Some v \<Rightarrow> (case v of AnyFloat64 p \<Rightarrow> (Some (Inr p), w) | _ \<Rightarrow> (None, w))
      | None \<Rightarrow>
          (case call_service itemCode w of
             (Inl e, w') \<Rightarrow> (Some (Inl (Errorf ''getting price from service : '' (Error e))), w')
           | (Inr p, w') \<Rightarrow>
               (Some (Inr p), set_prices (Store (prices (cache w')) itemCode (AnyFloat64 p)) w')))"

text \<open>
  Lines 50 to 78 of \<^verbatim>\<open>cache.go\<close>. A goroutine loads the entry itself first (line 57) and
  calls \<^verbatim>\<open>GetPriceFor\<close> only when it finds none; after that call it stores the price a
  second time (line 67).
\<close>

datatype task_todo =
    AtLoad_todo string            \<comment> \<open>line 57, about to load the entry\<close>
  | AtInnerLoad string            \<comment> \<open>line 35, in \<^verbatim>\<open>GetPriceFor\<close>, about to load the entry\<close>
  | AtService_todo string         \<comment> \<open>line 40, about to call the service\<close>
  | AtInnerStore string float64   \<comment> \<open>line 44, about to store the price\<close>
  | AtStore_todo string float64   \<comment> \<open>line 67, about to store the price again\<close>
  | AtAppend_todo float64         \<comment> \<open>lines 58 to 61 and 68 to 71, about to append and return nil\<close>
  | AtReturn_todo error           \<comment> \<open>line 65, about to return the error to the group\<close>
  | Finished_todo "error + float64"
  | Panicked                      \<comment> \<open>a type assertion failed\<close>

fun advance_todo :: "Time \<Rightarrow> task_todo \<Rightarrow> 's group \<Rightarrow> task_todo \<times> 's group" where
  "advance_todo t (AtLoad_todo ic) g =
     (case Load (prices (cache (shared g))) ic of
        Some v \<Rightarrow> (case v of AnyFloat64 p \<Rightarrow> (AtAppend_todo p, g) | _ \<Rightarrow> (Panicked, g))
      | None \<Rightarrow> (AtInnerLoad ic, g))"
| "advance_todo t (AtInnerLoad ic) g =
     (case Load (prices (cache (shared g))) ic of
        Some v \<Rightarrow> (case v of AnyFloat64 p \<Rightarrow> (AtStore_todo ic p, g) | _ \<Rightarrow> (Panicked, g))
      | None \<Rightarrow> (AtService_todo ic, g))"
| "advance_todo t (AtService_todo ic) g =
     (case call_service ic (shared g) of
        (Inl e, w') \<Rightarrow>
          (AtReturn_todo (Errorf ''getting price from service : '' (Error e)), g\<lparr>shared := w'\<rparr>)
      | (Inr p, w') \<Rightarrow> (AtInnerStore ic p, g\<lparr>shared := w'\<rparr>))"
| "advance_todo t (AtInnerStore ic p) g =
     (AtStore_todo ic p,
      g\<lparr>shared := set_prices (Store (prices (cache (shared g))) ic (AnyFloat64 p)) (shared g)\<rparr>)"
| "advance_todo t (AtStore_todo ic p) g =
     (AtAppend_todo p,
      g\<lparr>shared := set_prices (Store (prices (cache (shared g))) ic (AnyFloat64 p)) (shared g)\<rparr>)"
| "advance_todo t (AtAppend_todo p) g =
     (Finished_todo (Inr p), g\<lparr>results := results g @ [p], returned := returned g @ [Inr p]\<rparr>)"
| "advance_todo t (AtReturn_todo e) g =
     (Finished_todo (Inl e),
      g\<lparr>err := (case err g of None \<Rightarrow> Some e | Some first \<Rightarrow> Some first),
        returned := returned g @ [Inl e]\<rparr>)"
| "advance_todo t (Finished_todo r) g = (Finished_todo r, g)"
| "advance_todo t Panicked g = (Panicked, g)"

definition spawn_todo :: "string list \<Rightarrow> 's world \<Rightarrow> task_todo list \<times> 's group" where
  "spawn_todo itemCodes w =
     (map AtLoad_todo itemCodes, \<lparr>shared = w, results = [], err = None, returned = []\<rparr>)"

fun is_Finished_todo :: "task_todo \<Rightarrow> bool" where
  "is_Finished_todo (Finished_todo r) = True"
| "is_Finished_todo _ = False"

text \<open>
  Lines 74 to 77 of \<^verbatim>\<open>cache.go\<close>: with an error, the slice returned is a new, empty
  one. A goroutine that panicked never returns, and neither does the call.
\<close>

definition GetPricesFor_todo ::
  "schedule \<Rightarrow> string list \<Rightarrow> 's world \<Rightarrow> ((float64 list \<times> error option) \<times> 's world) option" where
  "GetPricesFor_todo sched itemCodes w =
     (case run advance_todo sched (spawn_todo itemCodes w) of
        (tks, g) \<Rightarrow>
          if list_all is_Finished_todo tks
          then (case err g of
                  Some e \<Rightarrow> Some (([], Some e), shared g)
                | None \<Rightarrow> Some ((results g, None), shared g))
          else None)"

definition resolutions_todo :: "schedule \<Rightarrow> string list \<Rightarrow> 's world \<Rightarrow> task_todo list" where
  "resolutions_todo sched itemCodes w = fst (run advance_todo sched (spawn_todo itemCodes w))"






datatype call_todo = CallGetPriceFor_todo string | CallGetPricesFor_todo schedule "string list"

fun after_call_todo :: "call_todo \<Rightarrow> 's world \<Rightarrow> 's world option" where
  "after_call_todo (CallGetPriceFor_todo itemCode) w =
     (case GetPriceFor_todo itemCode w of (None, w') \<Rightarrow> None | (Some r, w') \<Rightarrow> Some w')"
| "after_call_todo (CallGetPricesFor_todo sched itemCodes) w =
     map_option snd (GetPricesFor_todo sched itemCodes w)"

fun after_calls_todo :: "call_todo list \<Rightarrow> 's world \<Rightarrow> 's world option" where
  "after_calls_todo [] w = Some w"
| "after_calls_todo (c # cs) w =
     (case after_call_todo c w of None \<Rightarrow> None | Some w' \<Rightarrow> after_calls_todo cs w')"

section \<open>Stub services and caches in front of them\<close>

text \<open>
  The stub counts its calls. It knows \<open>apple\<close>, priced 10 at the first call and 20
  afterwards, and fails for every other item code.
\<close>

definition stub :: "nat PriceService" where
  "stub itemCode n =
     (if itemCode = ''apple'' then (Inr (if n = 0 then 10 else 20), Suc n)
      else (Inl (errorString ''no such item''), Suc n))"

text \<open>
  A second service answers its first call, whatever the item code, with the price 7 and
  fails from then on.
\<close>

definition flaky :: "nat PriceService" where
  "flaky itemCode n =
     (if n = 0 then (Inr 7, Suc n) else (Inl (errorString ''service down''), Suc n))"

definition cold :: "nat world" where
  "cold = \<lparr>cache = NewTransparentCache stub 1000, backend = 0, upstream_calls = []\<rparr>"

definition warm :: "nat world" where
  "warm = snd (GetPriceFor 5000 ''apple'' cold)"

definition cold_flaky :: "nat world" where
  "cold_flaky = \<lparr>cache = NewTransparentCache flaky 1000, backend = 0, upstream_calls = []\<rparr>"

definition warm_flaky :: "nat world" where
  "warm_flaky = snd (GetPriceFor 0 ''apple'' cold_flaky)"

definition warm_todo :: "nat world" where
  "warm_todo = snd (GetPriceFor_todo ''apple'' cold)"

section \<open>Invariants and measures used in the proofs\<close>

text \<open>
  The slice holds the prices of the outcomes returned so far, in that order; the error of
  the group is the first error among them; and the outcomes returned are those of the
  goroutines that have finished.
\<close>

definition consistent :: "(error + float64) list \<Rightarrow> 's group \<Rightarrow> bool" where
  "consistent outs g \<longleftrightarrow>
     results g = prices_of (returned g) \<and> err g = first_error (returned g)
     \<and> mset (returned g) = mset outs"

text \<open>An upper bound of the number of actions a goroutine still takes.\<close>

fun remaining :: "task \<Rightarrow> nat" where
  "remaining (AtNow ic) = 6"
| "remaining (AtLoad ic now) = 5"
| "remaining (AtDelete ic now) = 4"
| "remaining (AtService ic now) = 3"
| "remaining (AtStore ic now p) = 2"
| "remaining (AtAppend p) = 1"
| "remaining (AtReturn e) = 1"
| "remaining (Finished r) = 0"

text \<open>A goroutine running alone for \<open>n\<close> actions.\<close>

fun solo ::
  "(Time \<Rightarrow> 'tk \<Rightarrow> 's group \<Rightarrow> 'tk \<times> 's group) \<Rightarrow> nat \<Rightarrow> Time \<Rightarrow> 'tk \<Rightarrow> 's group
     \<Rightarrow> 'tk \<times> 's group" where
  "solo adv 0 t tk g = (tk, g)"
| "solo adv (Suc n) t tk g = (case adv t tk g of (tk', g') \<Rightarrow> solo adv n t tk' g')"

text \<open>
  The calls of \<^verbatim>\<open>GetPriceFor\<close> for a list of item codes made one after the other, each
  followed by what its goroutine does with the outcome.
\<close>

fun in_sequence :: "Time \<Rightarrow> string list \<Rightarrow> 's group \<Rightarrow> 's group" where
  "in_sequence t [] g = g"
| "in_sequence t (k # ks) g =
     (case GetPriceFor t k (shared g) of
        (r, w') \<Rightarrow>
          in_sequence t ks
            (g\<lparr>shared := w', results := results g @ prices_of [r],
               err := (case err g of None \<Rightarrow> first_error [r] | Some first \<Rightarrow> Some first),
               returned := returned g @ [r]\<rparr>))"

text \<open>The two fields of the cache that no call assigns.\<close>

definition same_configuration :: "'s world \<Rightarrow> 's world \<Rightarrow> bool" where
  "same_configuration w w' \<longleftrightarrow>
     maxAge (cache w') = maxAge (cache w)
     \<and> actualPriceService (cache w') = actualPriceService (cache w)"

text \<open>Every value of the store is a \<^verbatim>\<open>PriceCacheEntry\<close>; no goroutine holds the cast error.\<close>

fun is_entry :: "any \<Rightarrow> bool" where
  "is_entry (AnyPriceCacheEntry e) = True"
| "is_entry _ = False"

definition only_entries :: "'s world \<Rightarrow> bool" where
  "only_entries w \<longleftrightarrow> (\<forall>v \<in> ran (prices (cache w)). is_entry v)"

fun casting :: "task \<Rightarrow> bool" where
  "casting (AtReturn e) = (e = errorString ''error when casting'')"
| "casting (Finished (Inl e)) = (e = errorString ''error when casting'')"
| "casting _ = False"

section \<open>Evaluation of the definitions\<close>

lemmas GetPriceFor_defs =
  GetPriceFor_def from_service_def call_service_def set_prices_def Errorf_def
  Load_def Store_def Delete_def Add_def Before_def

lemmas GetPriceFor_todo_defs =
  GetPriceFor_todo_def call_service_def set_prices_def Errorf_def Load_def Store_def

lemma warm_eq:
  "warm = \<lparr>cache = \<lparr>actualPriceService = stub, maxAge = 1000,
             prices = [''apple'' \<mapsto> AnyPriceCacheEntry \<lparr>price = 10, timestamp = 5000\<rparr>]\<rparr>,
           backend = Suc 0, upstream_calls = [''apple'']\<rparr>"
  by (simp add: warm_def cold_def NewTransparentCache_def stub_def GetPriceFor_defs)

lemma warm_flaky_eq:
  "warm_flaky = \<lparr>cache = \<lparr>actualPriceService = flaky, maxAge = 1000,
             prices = [''apple'' \<mapsto> AnyPriceCacheEntry \<lparr>price = 7, timestamp = 0\<rparr>]\<rparr>,
           backend = Suc 0, upstream_calls = [''apple'']\<rparr>"
  by (simp add: warm_flaky_def cold_flaky_def NewTransparentCache_def flaky_def GetPriceFor_defs)

lemma warm_todo_eq:
  "warm_todo = \<lparr>cache = \<lparr>actualPriceService = stub, maxAge = 1000,
             prices = [''apple'' \<mapsto> AnyFloat64 10]\<rparr>,
           backend = Suc 0, upstream_calls = [''apple'']\<rparr>"
  by (simp add: warm_todo_def cold_def NewTransparentCache_def stub_def GetPriceFor_todo_defs)

text \<open>
  The example of the specification, with \<open>maxAge\<close> 1000: the first call for \<open>apple\<close>
  returns 10, a second call within \<open>maxAge\<close> returns 10 without a call to the service,
  and a call after \<open>maxAge\<close> returns 20; the service has then been called twice.
\<close>

lemma apple_example:
  "fst (GetPriceFor 5000 ''apple'' cold) = Inr 10
   \<and> GetPriceFor 5001 ''apple'' warm = (Inr 10, warm)
   \<and> fst (GetPriceFor 6100 ''apple'' warm) = Inr 20
   \<and> upstream_calls (snd (GetPriceFor 6100 ''apple'' warm)) = [''apple'', ''apple'']"
  by (simp add: warm_eq cold_def NewTransparentCache_def stub_def GetPriceFor_defs)

section \<open>Schedules\<close>

lemma length_step: "length (fst (step adv ev cfg)) = length (fst cfg)"
  by (cases ev; cases cfg) (simp add: step_def split: prod.splits)

lemma length_run: "length (fst (run adv sched cfg)) = length (fst cfg)"
  by (induction sched arbitrary: cfg) (simp_all add: length_step)

lemma step_nth:
  "j < length tks \<Longrightarrow>
     fst (step adv (i, t) (tks, g)) ! j = (if i = j then fst (adv t (tks ! j) g) else tks ! j)"
  by (auto simp add: step_def split: prod.splits)

lemma run_no_goroutines: "run adv sched ([], g) = ([], g)"
  by (induction sched) (simp_all add: step_def split: prod.splits)

lemma run_append: "run adv (s1 @ s2) cfg = run adv s2 (run adv s1 cfg)"
  by (induction s1 arbitrary: cfg) simp_all

lemma run_solo:
  "i < length tks \<Longrightarrow>
     run adv (replicate n (i, t)) (tks, g) =
       (tks[i := fst (solo adv n t (tks ! i) g)], snd (solo adv n t (tks ! i) g))"
proof (induction n arbitrary: tks g)
  case 0
  then show ?case by simp
next
  case (Suc n)
  obtain tk' g' where a: "adv t (tks ! i) g = (tk', g')" by (cases "adv t (tks ! i) g")
  have st: "step adv (i, t) (tks, g) = (tks[i := tk'], g')"
    using Suc.prems a by (simp add: step_def)
  have len: "i < length (tks[i := tk'])" using Suc.prems by simp
  show ?case
    using Suc.IH [OF len, of g'] Suc.prems a st by simp
qed

lemma count_replicate: "count_list (replicate m x) y = (if x = y then m else 0)"
  by (induction m) auto

lemma count_one_by_one: "count_list (map fst (one_by_one n t)) j = (if j < n then 6 else 0)"
  by (induction n) (auto simp add: one_by_one_def count_replicate)

lemma prices_of_append: "prices_of (rs @ rs') = prices_of rs @ prices_of rs'"
  by (induction rs rule: prices_of.induct) simp_all

lemma first_error_append:
  "first_error (rs @ rs') = (case first_error rs of None \<Rightarrow> first_error rs' | Some e \<Rightarrow> Some e)"
  by (induction rs rule: first_error.induct) simp_all

lemma mset_prices_of:
  "mset (prices_of rs) = image_mset projr (filter_mset (\<lambda>r. \<not> isl r) (mset rs))"
  by (induction rs rule: prices_of.induct) simp_all


lemma first_error_mem: "first_error rs = Some e \<Longrightarrow> Inl e \<in> set rs"
  by (induction rs rule: first_error.induct) auto

lemma consistent_results:
  assumes "consistent outs g"
  shows "results g = prices_of (returned g)" and "err g = first_error (returned g)"
    and "set (returned g) = set outs" and "mset (results g) = mset (prices_of outs)"
proof -
  show "results g = prices_of (returned g)" "err g = first_error (returned g)"
    using assms by (simp_all add: consistent_def)
  have m: "mset (returned g) = mset outs" using assms by (simp add: consistent_def)
  then show "set (returned g) = set outs" by (rule mset_eq_setD)
  show "mset (results g) = mset (prices_of outs)"
    using assms m by (simp add: consistent_def mset_prices_of)
qed

section \<open>The goroutines of the completed revision\<close>

lemma advance_log:
  assumes "advance t tk g = (tk', g')"
  shows "(returned g' = returned g \<and> results g' = results g \<and> err g' = err g
            \<and> outcome tk' = outcome tk)
         \<or> (\<exists>p. tk = AtAppend p \<and> tk' = Finished (Inr p) \<and> returned g' = returned g @ [Inr p]
                \<and> results g' = results g @ [p] \<and> err g' = err g)
         \<or> (\<exists>e. tk = AtReturn e \<and> tk' = Finished (Inl e) \<and> returned g' = returned g @ [Inl e]
                \<and> results g' = results g
                \<and> err g' = (case err g of None \<Rightarrow> Some e | Some first \<Rightarrow> Some first))"
  using assms
  by (cases tk) (auto simp add: Let_def split: option.splits any.splits prod.splits sum.splits if_splits)

lemma outcomes_update:
  "i < length tks \<Longrightarrow>
     mset (outcomes (tks[i := tk])) + mset (outcome (tks ! i)) = mset (outcomes tks) + mset (outcome tk)"
proof (induction tks arbitrary: i)
  case Nil
  then show ?case by simp
next
  case (Cons a tks)
  show ?case
  proof (cases i)
    case 0
    then show ?thesis by (simp add: outcomes_def)
  next
    case (Suc j)
    then have "j < length tks" using Cons.prems by simp
    from Cons.IH [OF this] show ?thesis using Suc by (simp add: outcomes_def)
  qed
qed

lemma consistent_step:
  assumes "consistent (outcomes (fst cfg)) (snd cfg)"
  shows "consistent (outcomes (fst (step advance ev cfg))) (snd (step advance ev cfg))"
proof -
  obtain i t where ev: "ev = (i, t)" by (cases ev)
  obtain tks g where cfg: "cfg = (tks, g)" by (cases cfg)
  show ?thesis
  proof (cases "i < length tks")
    case False
    then show ?thesis using assms by (simp add: ev cfg step_def)
  next
    case True
    obtain tk' g' where a: "advance t (tks ! i) g = (tk', g')"
      by (cases "advance t (tks ! i) g")
    have st: "step advance ev cfg = (tks[i := tk'], g')"
      using True a by (simp add: ev cfg step_def)
    have upd: "mset (outcomes (tks[i := tk'])) + mset (outcome (tks ! i))
               = mset (outcomes tks) + mset (outcome tk')"
      using outcomes_update [OF True] .
    have c: "consistent (outcomes tks) g" using assms by (simp add: cfg)
    from advance_log [OF a] show ?thesis
    proof (elim disjE exE conjE)
      assume "returned g' = returned g" "results g' = results g" "err g' = err g"
        "outcome tk' = outcome (tks ! i)"
      then show ?thesis using c upd st by (simp add: consistent_def)
    next
      fix p assume "tks ! i = AtAppend p" "tk' = Finished (Inr p)"
        "returned g' = returned g @ [Inr p]" "results g' = results g @ [p]" "err g' = err g"
      then show ?thesis using c upd st
        by (simp add: consistent_def prices_of_append first_error_append split: option.splits)
    next
      fix e assume "tks ! i = AtReturn e" "tk' = Finished (Inl e)"
        "returned g' = returned g @ [Inl e]" "results g' = results g"
        "err g' = (case err g of None \<Rightarrow> Some e | Some first \<Rightarrow> Some first)"
      then show ?thesis using c upd st
        by (simp add: consistent_def prices_of_append first_error_append split: option.splits)
    qed
  qed
qed

lemma consistent_run:
  "consistent (outcomes (fst cfg)) (snd cfg) \<Longrightarrow>
     consistent (outcomes (fst (run advance sched cfg))) (snd (run advance sched cfg))"
  by (induction sched arbitrary: cfg) (simp_all add: consistent_step)

lemma consistent_call:
  "consistent (outcomes (fst (run advance sched (spawn ks w))))
     (snd (run advance sched (spawn ks w)))"
  by (rule consistent_run) (simp add: consistent_def spawn_def outcomes_def)

lemma length_resolutions: "length (resolutions sched ks w) = length ks"
  by (simp add: resolutions_def length_run spawn_def)



lemma set_outcomes: "r \<in> set (outcomes tks) \<longleftrightarrow> Finished r \<in> set tks"
proof (induction tks)
  case Nil
  then show ?case by (simp add: outcomes_def)
next
  case (Cons tk tks)
  then show ?case by (cases tk) (auto simp add: outcomes_def)
qed

subsection \<open>Every goroutine returns\<close>

lemma remaining_advance: "remaining (fst (advance t tk g)) \<le> remaining tk - 1"
  by (cases tk) (auto simp add: Let_def split: option.splits any.splits prod.splits sum.splits)

lemma remaining_0: "remaining tk = 0 \<longleftrightarrow> is_Finished tk"
  by (cases tk) simp_all

lemma remaining_le: "remaining tk \<le> 6"
  by (cases tk) simp_all

lemma remaining_run:
  "j < length (fst cfg) \<Longrightarrow>
     remaining (fst (run advance sched cfg) ! j)
       \<le> remaining (fst cfg ! j) - count_list (map fst sched) j"
proof (induction sched arbitrary: cfg)
  case Nil
  then show ?case by simp
next
  case (Cons ev sched)
  obtain i t where ev: "ev = (i, t)" by (cases ev)
  obtain tks g where cfg: "cfg = (tks, g)" by (cases cfg)
  have j: "j < length tks" using Cons.prems by (simp add: cfg)
  have len: "j < length (fst (step advance ev cfg))"
    using Cons.prems by (simp add: length_step)
  have one: "remaining (fst (step advance ev cfg) ! j)
             \<le> remaining (tks ! j) - (if i = j then 1 else 0)"
    using remaining_advance [of t "tks ! j" g] by (simp add: ev cfg step_nth [OF j])
  have "remaining (fst (run advance sched (step advance ev cfg)) ! j)
        \<le> remaining (fst (step advance ev cfg) ! j) - count_list (map fst sched) j"
    by (rule Cons.IH [OF len])
  then show ?case using one by (auto simp add: ev cfg)
qed

text \<open>
  Under a schedule that gives every goroutine at least six turns, every goroutine has
  returned, so \<^verbatim>\<open>g.Wait()\<close> and with it the call return.
\<close>

lemma fair_schedule_finishes:
  assumes "\<forall>j<length ks. 6 \<le> count_list (map fst sched) j"
  shows "list_all is_Finished (resolutions sched ks w)"
proof -
  have "is_Finished (resolutions sched ks w ! j)" if "j < length ks" for j
  proof -
    have j: "j < length (fst (spawn ks w))" using that by (simp add: spawn_def)
    have "remaining (fst (run advance sched (spawn ks w)) ! j)
          \<le> remaining (fst (spawn ks w) ! j) - count_list (map fst sched) j"
      by (rule remaining_run [OF j])
    moreover have "6 \<le> count_list (map fst sched) j" using assms that by simp
    moreover have "remaining (fst (spawn ks w) ! j) \<le> 6" by (rule remaining_le)
    ultimately have "remaining (fst (run advance sched (spawn ks w)) ! j) = 0" by linarith
    then show ?thesis by (simp add: remaining_0 resolutions_def)
  qed
  then show ?thesis by (simp add: list_all_length length_resolutions)
qed

lemma GetPricesFor_eq:
  "GetPricesFor sched ks w =
     (if list_all is_Finished (resolutions sched ks w)
      then Some ((results (snd (run advance sched (spawn ks w))),
                  err (snd (run advance sched (spawn ks w)))),
                 shared (snd (run advance sched (spawn ks w))))
      else None)"
  by (simp add: GetPricesFor_def resolutions_def split: prod.splits)

lemma GetPricesFor_returns:
  assumes "\<forall>j<length ks. 6 \<le> count_list (map fst sched) j"
  shows "GetPricesFor sched ks w \<noteq> None"
  using fair_schedule_finishes [OF assms, of w] by (simp add: GetPricesFor_eq)

lemma GetPricesFor_returns_one_by_one: "GetPricesFor (one_by_one (length ks) t) ks w \<noteq> None"
  by (rule GetPricesFor_returns) (simp add: count_one_by_one)

subsection \<open>A goroutine that runs alone does what GetPriceFor does\<close>

lemma solo_GetPriceFor:
  assumes "GetPriceFor now k (shared g) = (r, w')"
  shows "solo advance 6 now (AtNow k) g =
           (Finished r,
            g\<lparr>shared := w', results := results g @ prices_of [r],
              err := (case err g of None \<Rightarrow> first_error [r] | Some first \<Rightarrow> Some first),
              returned := returned g @ [r]\<rparr>)"
  using assms
  by (auto simp add: eval_nat_numeral GetPriceFor_defs Let_def
      split: option.splits any.splits prod.splits sum.splits if_splits)

lemma run_alone:
  assumes "i < length tks" and "tks ! i = AtNow k"
    and "GetPriceFor now k (shared g) = (r, w')"
  shows "run advance (replicate 6 (i, now)) (tks, g) =
           (tks[i := Finished r],
            g\<lparr>shared := w', results := results g @ prices_of [r],
              err := (case err g of None \<Rightarrow> first_error [r] | Some first \<Rightarrow> Some first),
              returned := returned g @ [r]\<rparr>)"
  using run_solo [OF assms(1), of advance 6 now g] solo_GetPriceFor [OF assms(3)] assms(2)
  by simp

lemma GetPricesFor_single:
  assumes "GetPriceFor now k w = (r, w')"
  shows "GetPricesFor (replicate 6 (0, now)) [k] w = Some ((prices_of [r], first_error [r]), w')"
  using run_alone [of 0 "[AtNow k]" k now "\<lparr>shared = w, results = [], err = None, returned = []\<rparr>" r w']
    assms
  by (simp add: GetPricesFor_def spawn_def)

text \<open>
  So under the schedule that runs the goroutines one after the other, \<^verbatim>\<open>GetPricesFor\<close> is
  the loop that calls \<^verbatim>\<open>GetPriceFor\<close> for each item code in turn.
\<close>

lemma run_in_sequence:
  "length pre = n \<Longrightarrow>
     snd (run advance (concat (map (\<lambda>i. replicate 6 (i, t)) [n..<n + length ks]))
            (pre @ map AtNow ks, g))
       = in_sequence t ks g"
proof (induction ks arbitrary: pre n g)
  case Nil
  then show ?case by simp
next
  case (Cons k ks)
  obtain r w' where r: "GetPriceFor t k (shared g) = (r, w')"
    by (cases "GetPriceFor t k (shared g)")
  let ?g' = "g\<lparr>shared := w', results := results g @ prices_of [r],
               err := (case err g of None \<Rightarrow> first_error [r] | Some first \<Rightarrow> Some first),
               returned := returned g @ [r]\<rparr>"
  have sched: "concat (map (\<lambda>i. replicate 6 (i, t)) [n..<n + length (k # ks)])
               = replicate 6 (n, t)
                 @ concat (map (\<lambda>i. replicate 6 (i, t)) [Suc n..<Suc n + length ks])"
  proof -
    have "[n..<n + length (k # ks)] = n # [Suc n..<Suc n + length ks]"
      using upt_conv_Cons [of n "n + length (k # ks)"] by (simp del: upt_Suc)
    then show ?thesis by (simp del: upt_Suc)
  qed
  have i: "n < length (pre @ map AtNow (k # ks))" using Cons.prems by simp
  have at: "(pre @ map AtNow (k # ks)) ! n = AtNow k" using Cons.prems by (simp add: nth_append)
  have first: "run advance (replicate 6 (n, t)) (pre @ map AtNow (k # ks), g)
               = ((pre @ [Finished r]) @ map AtNow ks, ?g')"
    using run_alone [OF i at r] Cons.prems by (simp add: list_update_append)
  have len: "length (pre @ [Finished r]) = Suc n" using Cons.prems by simp
  have "snd (run advance (concat (map (\<lambda>i. replicate 6 (i, t)) [n..<n + length (k # ks)]))
               (pre @ map AtNow (k # ks), g))
        = snd (run advance (concat (map (\<lambda>i. replicate 6 (i, t)) [Suc n..<Suc n + length ks]))
                 ((pre @ [Finished r]) @ map AtNow ks, ?g'))"
    by (simp only: sched run_append first)
  also have "\<dots> = in_sequence t ks ?g'"
    by (rule Cons.IH [OF len])
  also have "\<dots> = in_sequence t (k # ks) g"
    using r by simp
  finally show ?case .
qed

lemma GetPricesFor_one_by_one:
  "GetPricesFor (one_by_one (length ks) t) ks w =
     (let g = in_sequence t ks \<lparr>shared = w, results = [], err = None, returned = []\<rparr>
      in Some ((results g, err g), shared g))"
proof -
  have "list_all is_Finished (resolutions (one_by_one (length ks) t) ks w)"
    by (rule fair_schedule_finishes) (simp add: count_one_by_one)
  moreover have "snd (run advance (one_by_one (length ks) t) (spawn ks w))
                 = in_sequence t ks \<lparr>shared = w, results = [], err = None, returned = []\<rparr>"
    using run_in_sequence [of "[]" 0 t ks] by (simp add: one_by_one_def spawn_def)
  ultimately show ?thesis by (simp add: GetPricesFor_eq Let_def)
qed

subsection \<open>The configuration of the cache\<close>

lemma same_configuration_refl: "same_configuration w w"
  by (simp add: same_configuration_def)

lemma same_configuration_trans:
  "same_configuration w w' \<Longrightarrow> same_configuration w' w'' \<Longrightarrow> same_configuration w w''"
  by (simp add: same_configuration_def)

lemma GetPriceFor_configuration: "same_configuration w (snd (GetPriceFor now k w))"
  by (simp add: same_configuration_def GetPriceFor_defs Let_def
      split: option.splits any.splits prod.splits sum.splits)

lemma advance_configuration: "same_configuration (shared g) (shared (snd (advance t tk g)))"
  by (cases tk)
    (auto simp add: same_configuration_def call_service_def set_prices_def Let_def
      split: option.splits any.splits prod.splits sum.splits)

lemma step_configuration:
  assumes "\<And>t tk g. same_configuration (shared g) (shared (snd (adv t tk g)))"
  shows "same_configuration (shared (snd cfg)) (shared (snd (step adv ev cfg)))"
proof -
  obtain i t where ev: "ev = (i, t)" by (cases ev)
  obtain tks g where cfg: "cfg = (tks, g)" by (cases cfg)
  show ?thesis
    using assms [of g t "tks ! i"]
    by (auto simp add: ev cfg step_def same_configuration_refl split: prod.splits)
qed

lemma run_configuration:
  assumes "\<And>t tk g. same_configuration (shared g) (shared (snd (adv t tk g)))"
  shows "same_configuration (shared (snd cfg)) (shared (snd (run adv sched cfg)))"
proof (induction sched arbitrary: cfg)
  case Nil
  then show ?case by (simp add: same_configuration_refl)
next
  case (Cons ev sched)
  have one: "same_configuration (shared (snd cfg)) (shared (snd (step adv ev cfg)))"
    by (rule step_configuration) (rule assms)
  show ?case
    using same_configuration_trans [OF one Cons.IH [of "step adv ev cfg"]] by simp
qed

lemma GetPricesFor_world:
  "GetPricesFor sched ks w = Some (r, w') \<Longrightarrow> w' = shared (snd (run advance sched (spawn ks w)))"
  by (auto simp add: GetPricesFor_eq split: if_splits)

lemma after_call_configuration: "after_call c w = Some w' \<Longrightarrow> same_configuration w w'"
proof (cases c)
  case (CallGetPriceFor now k)
  assume "after_call c w = Some w'"
  then show ?thesis using CallGetPriceFor GetPriceFor_configuration [of w now k] by auto
next
  case (CallGetPricesFor sched ks)
  assume "after_call c w = Some w'"
  then have "w' = shared (snd (run advance sched (spawn ks w)))"
    using CallGetPricesFor GetPricesFor_world by auto
  moreover have "same_configuration (shared (snd (spawn ks w)))
                   (shared (snd (run advance sched (spawn ks w))))"
    by (rule run_configuration) (rule advance_configuration)
  ultimately show ?thesis by (simp add: spawn_def)
qed

lemma after_calls_configuration: "after_calls cs w = Some w' \<Longrightarrow> same_configuration w w'"
proof (induction cs arbitrary: w)
  case Nil
  then show ?case by (simp add: same_configuration_refl)
next
  case (Cons c cs)
  then obtain w1 where w1: "after_call c w = Some w1" "after_calls cs w1 = Some w'"
    by (auto split: option.splits)
  show ?case
    using same_configuration_trans [OF after_call_configuration [OF w1(1)] Cons.IH [OF w1(2)]] .
qed

subsection \<open>The values of the store\<close>

lemma only_entries_lookup:
  "only_entries w \<Longrightarrow> prices (cache w) k = Some v \<Longrightarrow> \<exists>e. v = AnyPriceCacheEntry e"
  by (cases v) (auto simp add: only_entries_def ran_def)

lemma only_entries_Delete:
  "only_entries w \<Longrightarrow> only_entries (set_prices (Delete (prices (cache w)) k) w)"
  by (auto simp add: only_entries_def set_prices_def Delete_def ran_def split: if_splits)

lemma only_entries_Store:
  "only_entries w \<Longrightarrow> only_entries (set_prices (Store (prices (cache w)) k (AnyPriceCacheEntry e)) w)"
  by (auto simp add: only_entries_def set_prices_def Store_def ran_def split: if_splits)

lemma only_entries_call_service: "only_entries w \<Longrightarrow> only_entries (snd (call_service k w))"
  by (simp add: only_entries_def call_service_def split: prod.splits)

lemma only_entries_new:
  "only_entries \<lparr>cache = NewTransparentCache svc age, backend = s, upstream_calls = l\<rparr>"
  by (simp add: only_entries_def NewTransparentCache_def)

lemma from_service_entries: "only_entries w \<Longrightarrow> only_entries (snd (from_service now k w))"
  using only_entries_call_service [of w k]
    only_entries_Store [of "snd (call_service k w)" k]
  by (auto simp add: from_service_def Let_def split: prod.splits sum.splits)

lemma from_service_no_cast:
  "fst (from_service now k w) \<noteq> Inl (errorString ''error when casting'')"
  by (simp add: from_service_def Errorf_def Let_def split: prod.splits sum.splits)

lemma GetPriceFor_entries:
  assumes "only_entries w"
  shows "only_entries (snd (GetPriceFor now k w))"
  using assms from_service_entries [of w now k]
    from_service_entries [OF only_entries_Delete [OF assms, of k], of now k]
  by (simp add: GetPriceFor_def Let_def split: option.splits any.splits)

lemma GetPriceFor_no_cast:
  assumes "only_entries w"
  shows "fst (GetPriceFor now k w) \<noteq> Inl (errorString ''error when casting'')"
proof (cases "prices (cache w) k")
  case None
  then show ?thesis by (simp add: GetPriceFor_def Load_def from_service_no_cast)
next
  case (Some v)
  then obtain e where "v = AnyPriceCacheEntry e"
    using only_entries_lookup [OF assms] by blast
  then show ?thesis using Some
    by (simp add: GetPriceFor_def Load_def Let_def from_service_no_cast)
qed

lemma advance_cast_free:
  assumes "only_entries (shared g)" and "\<not> casting tk"
  shows "only_entries (shared (snd (advance t tk g))) \<and> \<not> casting (fst (advance t tk g))"
proof (cases tk)
  case (AtLoad k now)
  show ?thesis
  proof (cases "prices (cache (shared g)) k")
    case None
    then show ?thesis using assms AtLoad by (simp add: Load_def)
  next
    case (Some v)
    then obtain e where "v = AnyPriceCacheEntry e"
      using only_entries_lookup [OF assms(1)] by blast
    then show ?thesis using assms AtLoad Some by (simp add: Load_def Let_def)
  qed
next
  case (AtDelete k now)
  then show ?thesis using only_entries_Delete [OF assms(1)] by simp
next
  case (AtService k now)
  then show ?thesis using only_entries_call_service [OF assms(1), of k]
    by (auto simp add: Errorf_def split: prod.splits sum.splits)
next
  case (AtStore k now p)
  then show ?thesis using only_entries_Store [OF assms(1)] by (simp add: Let_def)
next
  case (AtReturn e)
  then show ?thesis using assms by simp
next
  case (Finished r)
  then show ?thesis using assms by simp
qed (use assms in simp_all)

lemma cast_free_step:
  assumes "only_entries (shared (snd cfg))" and "\<not> list_ex casting (fst cfg)"
  shows "only_entries (shared (snd (step advance ev cfg)))
         \<and> \<not> list_ex casting (fst (step advance ev cfg))"
proof -
  obtain i t where ev: "ev = (i, t)" by (cases ev)
  obtain tks g where cfg: "cfg = (tks, g)" by (cases cfg)
  show ?thesis
  proof (cases "i < length tks")
    case False
    then show ?thesis using assms by (simp add: ev cfg step_def)
  next
    case True
    obtain tk' g' where a: "advance t (tks ! i) g = (tk', g')"
      by (cases "advance t (tks ! i) g")
    have st: "step advance ev cfg = (tks[i := tk'], g')"
      using True a by (simp add: ev cfg step_def)
    have all: "\<forall>tk \<in> set tks. \<not> casting tk"
      using assms(2) by (simp add: cfg list_ex_iff)
    then have nc: "\<not> casting (tks ! i)" using True by simp
    have oe: "only_entries (shared g)" using assms(1) by (simp add: cfg)
    have 1: "only_entries (shared g')" "\<not> casting tk'"
      using advance_cast_free [OF oe nc, of t] a by simp_all
    have 2: "\<forall>tk \<in> set (tks[i := tk']). \<not> casting tk"
      using all 1(2) by (metis insertE set_update_subset_insert subsetD)
    show ?thesis using st 1 2 by (simp add: list_ex_iff)
  qed
qed

lemma cast_free_run:
  "only_entries (shared (snd cfg)) \<Longrightarrow> \<not> list_ex casting (fst cfg) \<Longrightarrow>
     only_entries (shared (snd (run advance sched cfg)))
     \<and> \<not> list_ex casting (fst (run advance sched cfg))"
proof (induction sched arbitrary: cfg)
  case Nil
  then show ?case by simp
next
  case (Cons ev sched)
  show ?case
    using Cons.IH [of "step advance ev cfg"] cast_free_step [OF Cons.prems, of ev] by simp
qed

lemma cast_free_call:
  assumes "only_entries w"
  shows "only_entries (shared (snd (run advance sched (spawn ks w))))
         \<and> \<not> list_ex casting (resolutions sched ks w)"
proof -
  have "\<not> list_ex casting (fst (spawn ks w))"
    by (auto simp add: spawn_def list_ex_iff)
  moreover have "only_entries (shared (snd (spawn ks w)))"
    using assms by (simp add: spawn_def)
  ultimately show ?thesis
    using cast_free_run [of "spawn ks w" sched] by (simp add: resolutions_def)
qed

lemma after_call_entries: "after_call c w = Some w' \<Longrightarrow> only_entries w \<Longrightarrow> only_entries w'"
proof (cases c)
  case (CallGetPriceFor now k)
  assume "after_call c w = Some w'" "only_entries w"
  then show ?thesis using CallGetPriceFor GetPriceFor_entries [of w now k] by auto
next
  case (CallGetPricesFor sched ks)
  assume "after_call c w = Some w'" and oe: "only_entries w"
  then have "w' = shared (snd (run advance sched (spawn ks w)))"
    using CallGetPricesFor GetPricesFor_world by auto
  then show ?thesis using cast_free_call [OF oe, of sched ks] by simp
qed

lemma after_calls_entries: "after_calls cs w = Some w' \<Longrightarrow> only_entries w \<Longrightarrow> only_entries w'"
proof (induction cs arbitrary: w)
  case Nil
  then show ?case by simp
next
  case (Cons c cs)
  then obtain w1 where w1: "after_call c w = Some w1" "after_calls cs w1 = Some w'"
    by (auto split: option.splits)
  show ?case using Cons.IH [OF w1(2) after_call_entries [OF w1(1) Cons.prems(2)]] .
qed

section \<open>The goroutines of cache.go\<close>






lemma length_resolutions_todo: "length (resolutions_todo sched ks w) = length ks"
  by (simp add: resolutions_todo_def length_run spawn_todo_def)




lemma GetPricesFor_todo_eq:
  "GetPricesFor_todo sched ks w =
     (if list_all is_Finished_todo (resolutions_todo sched ks w)
      then (case err (snd (run advance_todo sched (spawn_todo ks w))) of
              Some e \<Rightarrow> Some (([], Some e), shared (snd (run advance_todo sched (spawn_todo ks w))))
            | None \<Rightarrow>
                Some ((results (snd (run advance_todo sched (spawn_todo ks w))), None),
                      shared (snd (run advance_todo sched (spawn_todo ks w)))))
      else None)"
  by (auto simp add: GetPricesFor_todo_def resolutions_todo_def split: prod.splits option.splits)

lemma GetPricesFor_todo_world:
  "GetPricesFor_todo sched ks w = Some (r, w') \<Longrightarrow>
     w' = shared (snd (run advance_todo sched (spawn_todo ks w)))"
  by (auto simp add: GetPricesFor_todo_eq split: if_splits option.splits)

text \<open>
  A goroutine of \<^verbatim>\<open>cache.go\<close> that runs alone does what \<^verbatim>\<open>GetPriceFor\<close> of that
  revision does: the load of line 57 and the store of line 67 change nothing then.
\<close>

lemma solo_GetPriceFor_todo:
  assumes "GetPriceFor_todo k (shared g) = (Some r, w')"
  shows "solo advance_todo 6 t (AtLoad_todo k) g =
           (Finished_todo r,
            g\<lparr>shared := w', results := results g @ prices_of [r],
              err := (case err g of None \<Rightarrow> first_error [r] | Some first \<Rightarrow> Some first),
              returned := returned g @ [r]\<rparr>)"
  using assms
  by (auto simp add: eval_nat_numeral GetPriceFor_todo_defs
      split: option.splits any.splits prod.splits sum.splits if_splits)

lemma GetPriceFor_todo_configuration: "same_configuration w (snd (GetPriceFor_todo k w))"
  by (simp add: same_configuration_def GetPriceFor_todo_defs
      split: option.splits any.splits prod.splits sum.splits)

lemma advance_todo_configuration:
  "same_configuration (shared g) (shared (snd (advance_todo t tk g)))"
  by (cases tk)
    (auto simp add: same_configuration_def call_service_def set_prices_def
      split: option.splits any.splits prod.splits sum.splits)

lemma after_call_todo_configuration:
  "after_call_todo c w = Some w' \<Longrightarrow> same_configuration w w'"
proof (cases c)
  case (CallGetPriceFor_todo k)
  assume "after_call_todo c w = Some w'"
  then show ?thesis using CallGetPriceFor_todo GetPriceFor_todo_configuration [of w k]
    by (auto split: prod.splits option.splits)
next
  case (CallGetPricesFor_todo sched ks)
  assume "after_call_todo c w = Some w'"
  then have "w' = shared (snd (run advance_todo sched (spawn_todo ks w)))"
    using CallGetPricesFor_todo GetPricesFor_todo_world by auto
  moreover have "same_configuration (shared (snd (spawn_todo ks w)))
                   (shared (snd (run advance_todo sched (spawn_todo ks w))))"
    by (rule run_configuration) (rule advance_todo_configuration)
  ultimately show ?thesis by (simp add: spawn_todo_def)
qed

lemma after_calls_todo_configuration:
  "after_calls_todo cs w = Some w' \<Longrightarrow> same_configuration w w'"
proof (induction cs arbitrary: w)
  case Nil
  then show ?case by (simp add: same_configuration_refl)
next
  case (Cons c cs)
  then obtain w1 where w1: "after_call_todo c w = Some w1" "after_calls_todo cs w1 = Some w'"
    by (auto split: option.splits)
  show ?case
    using same_configuration_trans
      [OF after_call_todo_configuration [OF w1(1)] Cons.IH [OF w1(2)]] .
qed

section \<open>Properties of GetPriceFor\<close>

text \<open>
  C1. If, for the \<open>now\<close> that the call reads, the store holds for \<open>k\<close> an entry with price
  \<open>p\<close> and fetch time \<open>t\<close> and \<open>now < t + maxAge\<close>, then \<open>GetPriceFor k\<close> returns \<open>p\<close> and no
  error and changes nothing: the store is the same, the state of the service is the same
  and the list of calls to the service is the same (no call was made). In \<^verbatim>\<open>cache.go\<close>,
  where the entry is the bare price and has no fetch time, every price found is returned
  so.
\<close>

theorem GetPriceFor_valid_entry:
  "(prices (cache w) k = Some (AnyPriceCacheEntry \<lparr>price = p, timestamp = t\<rparr>)
      \<and> now < t + maxAge (cache w)
      \<longrightarrow> GetPriceFor now k w = (Inr p, w))
   \<and> (prices (cache w) k = Some (AnyFloat64 p)
      \<longrightarrow> GetPriceFor_todo k w = (Some (Inr p), w))"
  by (simp add: GetPriceFor_def GetPriceFor_todo_def Load_def Add_def Before_def)

theorem GetPriceFor_valid_entry_witness:
  "prices (cache warm) ''apple'' = Some (AnyPriceCacheEntry \<lparr>price = 10, timestamp = 5000\<rparr>)
   \<and> (5999::int) < 5000 + maxAge (cache warm)
   \<and> GetPriceFor 5999 ''apple'' warm = (Inr 10, warm)
   \<and> prices (cache warm_todo) ''apple'' = Some (AnyFloat64 10)
   \<and> GetPriceFor_todo ''apple'' warm_todo = (Some (Inr 10), warm_todo)"
proof -
  have a: "prices (cache warm) ''apple'' = Some (AnyPriceCacheEntry \<lparr>price = 10, timestamp = 5000\<rparr>)
           \<and> (5999::int) < 5000 + maxAge (cache warm)"
    by (simp add: warm_eq)
  have b: "prices (cache warm_todo) ''apple'' = Some (AnyFloat64 10)"
    by (simp add: warm_todo_eq)
  show ?thesis
    using a b GetPriceFor_valid_entry [of warm "''apple''" 10 5000 5999]
      GetPriceFor_valid_entry [of warm_todo "''apple''" 10]
    by simp
qed

text \<open>
  The completed revision evicts an expired entry and fetches the price again. If the
  store holds for \<open>k\<close> an entry whose fetch time \<open>t\<close> has \<open>now \<ge> t + maxAge\<close> (the bound of
  validity is strict, so equality is already expired), the call runs on the store from
  which that entry has been deleted, calls the service exactly once, for \<open>k\<close>, and
  returns what that call returns: on a price \<open>p\<close> it returns \<open>p\<close>, whatever the old price
  was, and the store holds the entry \<open>(p, now)\<close>; on a failure it returns the annotated
  error and the store holds no entry for \<open>k\<close>, the old one being deleted. The last part
  is the order of the actions as other goroutines see it: after its first three actions
  (clock, load, delete) the goroutine of this call is about to call the service, the
  entry is gone from the store, and the service has not been called yet.
\<close>

lemma GetPriceFor_expired_entry:
  assumes "prices (cache w) k = Some (AnyPriceCacheEntry \<lparr>price = p0, timestamp = t\<rparr>)"
    and "t + maxAge (cache w) \<le> now"
    and "actualPriceService (cache w) k (backend w) = (u, s)"
  shows "GetPriceFor now k w =
           from_service now k (w\<lparr>cache := (cache w)\<lparr>prices := (prices (cache w))(k := None)\<rparr>\<rparr>)
         \<and> upstream_calls (snd (GetPriceFor now k w)) = upstream_calls w @ [k]
         \<and> backend (snd (GetPriceFor now k w)) = s
         \<and> fst (GetPriceFor now k w) =
             (case u of Inr p \<Rightarrow> Inr p
              | Inl e \<Rightarrow> Inl (errorString (''getting price from service : '' @ Error e)))
         \<and> prices (cache (snd (GetPriceFor now k w))) =
             (case u of Inr p \<Rightarrow> (prices (cache w))(k \<mapsto> AnyPriceCacheEntry \<lparr>price = p, timestamp = now\<rparr>)
              | Inl e \<Rightarrow> (prices (cache w))(k := None))
         \<and> solo advance 3 now (AtNow k) \<lparr>shared = w, results = rs, err = er, returned = rt\<rparr>
             = (AtService k now,
                \<lparr>shared = w\<lparr>cache := (cache w)\<lparr>prices := (prices (cache w))(k := None)\<rparr>\<rparr>,
                 results = rs, err = er, returned = rt\<rparr>)"
  using assms
  by (simp add: GetPriceFor_defs eval_nat_numeral split: sum.splits)

lemma GetPriceFor_expired_entry_example:
  "prices (cache warm) ''apple'' = Some (AnyPriceCacheEntry \<lparr>price = 10, timestamp = 5000\<rparr>)
   \<and> 5000 + maxAge (cache warm) \<le> (6000::int)
   \<and> actualPriceService (cache warm) ''apple'' (backend warm) = (Inr 20, 2)
   \<and> fst (GetPriceFor 6000 ''apple'' warm) = Inr 20
   \<and> upstream_calls (snd (GetPriceFor 6000 ''apple'' warm)) = [''apple'', ''apple'']
   \<and> prices (cache (snd (GetPriceFor 6000 ''apple'' warm))) ''apple''
       = Some (AnyPriceCacheEntry \<lparr>price = 20, timestamp = 6000\<rparr>)
   \<and> prices (cache warm_flaky) ''apple'' = Some (AnyPriceCacheEntry \<lparr>price = 7, timestamp = 0\<rparr>)
   \<and> 0 + maxAge (cache warm_flaky) \<le> (1000::int)
   \<and> actualPriceService (cache warm_flaky) ''apple'' (backend warm_flaky)
       = (Inl (errorString ''service down''), 2)
   \<and> fst (GetPriceFor 1000 ''apple'' warm_flaky)
       = Inl (errorString ''getting price from service : service down'')
   \<and> upstream_calls (snd (GetPriceFor 1000 ''apple'' warm_flaky)) = [''apple'', ''apple'']
   \<and> prices (cache (snd (GetPriceFor 1000 ''apple'' warm_flaky))) ''apple'' = None"
proof -
  have a: "prices (cache warm) ''apple'' = Some (AnyPriceCacheEntry \<lparr>price = 10, timestamp = 5000\<rparr>)"
    by (simp add: warm_eq)
  have b: "5000 + maxAge (cache warm) \<le> (6000::int)"
    by (simp add: warm_eq)
  have c: "actualPriceService (cache warm) ''apple'' (backend warm) = (Inr 20, 2)"
    by (simp add: warm_eq stub_def)
  have a': "prices (cache warm_flaky) ''apple'' = Some (AnyPriceCacheEntry \<lparr>price = 7, timestamp = 0\<rparr>)"
    by (simp add: warm_flaky_eq)
  have b': "0 + maxAge (cache warm_flaky) \<le> (1000::int)"
    by (simp add: warm_flaky_eq)
  have c': "actualPriceService (cache warm_flaky) ''apple'' (backend warm_flaky)
            = (Inl (errorString ''service down''), 2)"
    by (simp add: warm_flaky_eq flaky_def)
  show ?thesis
    using a b c a' b' c' GetPriceFor_expired_entry [OF a b c] GetPriceFor_expired_entry [OF a' b' c']
    by (simp add: warm_eq warm_flaky_eq stub_def flaky_def GetPriceFor_defs)
qed

text \<open>
  \<^verbatim>\<open>cache.go\<close> has no such check (its line 37): \<^verbatim>\<open>GetPriceFor\<close> of that revision reads no
  clock, and a price once stored is returned by every later call, with no call to the
  service and no change of the store.
\<close>

lemma GetPriceFor_todo_keeps_old_price:
  "prices (cache w) k = Some (AnyFloat64 p) \<Longrightarrow>
     GetPriceFor_todo k w = (Some (Inr p), w)
     \<and> GetPriceFor_todo k (snd (GetPriceFor_todo k w)) = (Some (Inr p), w)"
  by (simp add: GetPriceFor_todo_def Load_def)

text \<open>
  C2. An expired entry is to be deleted and its price fetched again, with exactly one
  call to the service, whose answer is returned. \<^verbatim>\<open>cache.go\<close> does not do this. With
  \<open>maxAge\<close> 1000 and the stub, a first call for \<open>apple\<close> returns 10 and leaves the cache
  \<open>warm_todo\<close>, which holds the bare price 10 for \<open>apple\<close>; the stub would now answer 20.
  A second call for \<open>apple\<close>, however long after the first (the call of that revision
  reads no clock), returns 10 and leaves everything as it was: the entry is not deleted
  and the service is not called, its log still holding the one call of the first
  request. The completed revision, after the same first call at 5000 and asked again at
  6000, when the entry has reached \<open>maxAge\<close>, returns 20 and has called the service twice.
\<close>

theorem GetPriceFor_todo_returns_expired_price:
  "fst (GetPriceFor_todo ''apple'' cold) = Some (Inr 10)
   \<and> warm_todo = snd (GetPriceFor_todo ''apple'' cold)
   \<and> maxAge (cache warm_todo) = 1000
   \<and> prices (cache warm_todo) ''apple'' = Some (AnyFloat64 10)
   \<and> fst (actualPriceService (cache warm_todo) ''apple'' (backend warm_todo)) = Inr 20
   \<and> GetPriceFor_todo ''apple'' warm_todo = (Some (Inr 10), warm_todo)
   \<and> prices (cache (snd (GetPriceFor_todo ''apple'' warm_todo))) ''apple'' = Some (AnyFloat64 10)
   \<and> upstream_calls (snd (GetPriceFor_todo ''apple'' warm_todo)) = [''apple'']
   \<and> warm = snd (GetPriceFor 5000 ''apple'' cold)
   \<and> fst (GetPriceFor 6000 ''apple'' warm) = Inr 20
   \<and> upstream_calls (snd (GetPriceFor 6000 ''apple'' warm)) = [''apple'', ''apple'']"
proof -
  have first: "fst (GetPriceFor_todo ''apple'' cold) = Some (Inr 10)"
    by (simp add: cold_def NewTransparentCache_def stub_def GetPriceFor_todo_defs)
  have again: "GetPriceFor_todo ''apple'' warm_todo = (Some (Inr 10), warm_todo)"
    by (simp add: warm_todo_eq GetPriceFor_todo_defs)
  have completed: "fst (GetPriceFor 6000 ''apple'' warm) = Inr 20
      \<and> upstream_calls (snd (GetPriceFor 6000 ''apple'' warm)) = [''apple'', ''apple'']"
    by (simp add: warm_eq stub_def GetPriceFor_defs)
  have store: "maxAge (cache warm_todo) = 1000
      \<and> prices (cache warm_todo) ''apple'' = Some (AnyFloat64 10)
      \<and> fst (actualPriceService (cache warm_todo) ''apple'' (backend warm_todo)) = Inr 20
      \<and> upstream_calls warm_todo = [''apple'']"
    by (simp add: warm_todo_eq stub_def)
  show ?thesis
    using first again completed store by (simp add: warm_todo_def warm_def)
qed

text \<open>
  C3, as stated: whenever the call for \<open>k\<close> reaches the service and the service fails, the
  store after the call is the store before it. This is false where the call found an
  expired entry for \<open>k\<close>: line 77 has deleted it before the service is called. In
  \<open>warm_flaky\<close> the entry \<open>(7, 0)\<close> of \<open>apple\<close> is expired at 5000 and the service fails.
\<close>

theorem GetPriceFor_failure_store_counterexample:
  "prices (cache warm_flaky) ''apple'' = Some (AnyPriceCacheEntry \<lparr>price = 7, timestamp = 0\<rparr>)
   \<and> fst (actualPriceService (cache warm_flaky) ''apple'' (backend warm_flaky))
       = Inl (errorString ''service down'')
   \<and> fst (GetPriceFor 5000 ''apple'' warm_flaky)
       = Inl (errorString ''getting price from service : service down'')
   \<and> prices (cache (snd (GetPriceFor 5000 ''apple'' warm_flaky))) ''apple'' = None
   \<and> prices (cache (snd (GetPriceFor 5000 ''apple'' warm_flaky))) \<noteq> prices (cache warm_flaky)"
proof -
  have "prices (cache (snd (GetPriceFor 5000 ''apple'' warm_flaky))) ''apple'' = None"
    by (simp add: warm_flaky_eq flaky_def GetPriceFor_defs)
  moreover have "prices (cache warm_flaky) ''apple'' \<noteq> None"
    by (simp add: warm_flaky_eq)
  ultimately have "prices (cache (snd (GetPriceFor 5000 ''apple'' warm_flaky))) \<noteq> prices (cache warm_flaky)"
    by metis
  then show ?thesis
    by (simp add: warm_flaky_eq flaky_def GetPriceFor_defs)
qed

text \<open>
  C3, amended. When the call for \<open>k\<close> reaches the service (no entry for \<open>k\<close>, or an expired
  one) and the service fails with \<open>e\<close>, the call returns an error and stores nothing: the
  store afterwards has no entry for \<open>k\<close> and is otherwise the store before the call (so it
  is unchanged when \<open>k\<close> was absent, and has lost the expired entry otherwise). A second
  call for \<open>k\<close>, at any time, calls the service again. In \<^verbatim>\<open>cache.go\<close> the service is
  reached only when \<open>k\<close> is absent, and the store is unchanged.
\<close>

theorem GetPriceFor_failure_stores_nothing:
  assumes "actualPriceService (cache w) k (backend w) = (Inl e, s)"
  shows "(prices (cache w) k = None
            \<or> prices (cache w) k = Some (AnyPriceCacheEntry \<lparr>price = p0, timestamp = t\<rparr>)
              \<and> t + maxAge (cache w) \<le> now
          \<longrightarrow> fst (GetPriceFor now k w)
                = Inl (errorString (''getting price from service : '' @ Error e))
              \<and> prices (cache (snd (GetPriceFor now k w))) = (prices (cache w))(k := None)
              \<and> (prices (cache w) k = None
                   \<longrightarrow> prices (cache (snd (GetPriceFor now k w))) = prices (cache w))
              \<and> upstream_calls (snd (GetPriceFor now k w)) = upstream_calls w @ [k]
              \<and> upstream_calls (snd (GetPriceFor later k (snd (GetPriceFor now k w))))
                  = upstream_calls w @ [k, k])
         \<and> (prices (cache w) k = None
          \<longrightarrow> fst (GetPriceFor_todo k w)
                = Some (Inl (errorString (''getting price from service : '' @ Error e)))
              \<and> prices (cache (snd (GetPriceFor_todo k w))) = prices (cache w)
              \<and> upstream_calls (snd (GetPriceFor_todo k w)) = upstream_calls w @ [k]
              \<and> upstream_calls (snd (GetPriceFor_todo k (snd (GetPriceFor_todo k w))))
                  = upstream_calls w @ [k, k])"
proof -
  let ?w' = "w\<lparr>cache := (cache w)\<lparr>prices := (prices (cache w))(k := None)\<rparr>,
               backend := s, upstream_calls := upstream_calls w @ [k]\<rparr>"
  have absent: "(prices (cache w))(k := None) = prices (cache w)" if "prices (cache w) k = None"
    using that by (metis fun_upd_triv)
  have first: "GetPriceFor now k w
               = (Inl (errorString (''getting price from service : '' @ Error e)), ?w')"
    if "prices (cache w) k = None
        \<or> prices (cache w) k = Some (AnyPriceCacheEntry \<lparr>price = p0, timestamp = t\<rparr>)
          \<and> t + maxAge (cache w) \<le> now"
    using that assms absent by (auto simp add: GetPriceFor_defs)
  have again: "upstream_calls (snd (GetPriceFor later k ?w')) = upstream_calls w @ [k, k]"
    by (simp add: GetPriceFor_defs split: prod.splits sum.splits)
  have todo: "GetPriceFor_todo k w
              = (Some (Inl (errorString (''getting price from service : '' @ Error e))),
                 w\<lparr>backend := s, upstream_calls := upstream_calls w @ [k]\<rparr>)"
    if "prices (cache w) k = None"
    using that assms by (simp add: GetPriceFor_todo_defs)
  have todo_again:
    "upstream_calls (snd (GetPriceFor_todo k (w\<lparr>backend := s, upstream_calls := upstream_calls w @ [k]\<rparr>)))
     = upstream_calls w @ [k, k]"
    if "prices (cache w) k = None"
    using that by (simp add: GetPriceFor_todo_defs split: prod.splits sum.splits)
  show ?thesis using first again absent todo todo_again by auto
qed

theorem GetPriceFor_failure_stores_nothing_witness:
  "actualPriceService (cache warm_flaky) ''apple'' (backend warm_flaky)
       = (Inl (errorString ''service down''), 2)
   \<and> prices (cache warm_flaky) ''apple'' = Some (AnyPriceCacheEntry \<lparr>price = 7, timestamp = 0\<rparr>)
   \<and> 0 + maxAge (cache warm_flaky) \<le> (5000::int)
   \<and> fst (GetPriceFor 5000 ''apple'' warm_flaky)
       = Inl (errorString ''getting price from service : service down'')
   \<and> prices (cache (snd (GetPriceFor 5000 ''apple'' warm_flaky))) = Map.empty
   \<and> upstream_calls (snd (GetPriceFor 5001 ''apple'' (snd (GetPriceFor 5000 ''apple'' warm_flaky))))
       = [''apple'', ''apple'', ''apple'']
   \<and> actualPriceService (cache cold) ''pear'' (backend cold)
       = (Inl (errorString ''no such item''), 1)
   \<and> prices (cache cold) ''pear'' = None
   \<and> fst (GetPriceFor 0 ''pear'' cold)
       = Inl (errorString ''getting price from service : no such item'')
   \<and> prices (cache (snd (GetPriceFor 0 ''pear'' cold))) = prices (cache cold)
   \<and> fst (GetPriceFor_todo ''pear'' cold)
       = Some (Inl (errorString ''getting price from service : no such item''))
   \<and> prices (cache (snd (GetPriceFor_todo ''pear'' cold))) = Map.empty
   \<and> upstream_calls (snd (GetPriceFor_todo ''pear'' (snd (GetPriceFor_todo ''pear'' cold))))
       = [''pear'', ''pear'']"
proof -
  have a: "actualPriceService (cache warm_flaky) ''apple'' (backend warm_flaky)
           = (Inl (errorString ''service down''), 2)"
    by (simp add: warm_flaky_eq flaky_def)
  have b: "actualPriceService (cache cold) ''pear'' (backend cold)
           = (Inl (errorString ''no such item''), 1)"
    by (simp add: cold_def NewTransparentCache_def stub_def)
  show ?thesis
    using a b
      GetPriceFor_failure_stores_nothing [OF a, of 7 0 5000 5001]
      GetPriceFor_failure_stores_nothing [OF b, of 0 0 0 0]
    by (simp add: warm_flaky_eq cold_def NewTransparentCache_def)
qed

text \<open>
  The completed revision stores the price with the time of this call. When the call for
  \<open>k\<close> finds no valid entry (none, or an expired one, which it evicts) and the service
  answers with the price \<open>p\<close>, the call returns \<open>p\<close> and the store afterwards maps \<open>k\<close> to
  the entry with price \<open>p\<close> and the timestamp \<open>now\<close> read by this call (not \<open>t\<close>, the
  timestamp of the evicted entry); the other keys are untouched.
\<close>

lemma GetPriceFor_stores_fresh_entry:
  assumes "prices (cache w) k = None
           \<or> prices (cache w) k = Some (AnyPriceCacheEntry \<lparr>price = p0, timestamp = t\<rparr>)
             \<and> t + maxAge (cache w) \<le> now"
    and "actualPriceService (cache w) k (backend w) = (Inr p, s)"
  shows "fst (GetPriceFor now k w) = Inr p
         \<and> prices (cache (snd (GetPriceFor now k w)))
             = (prices (cache w))(k \<mapsto> AnyPriceCacheEntry \<lparr>price = p, timestamp = now\<rparr>)"
  using assms by (auto simp add: GetPriceFor_defs)

lemma GetPriceFor_stores_fresh_entry_example:
  "prices (cache warm) ''apple'' = Some (AnyPriceCacheEntry \<lparr>price = 10, timestamp = 5000\<rparr>)
   \<and> 5000 + maxAge (cache warm) \<le> (6100::int)
   \<and> actualPriceService (cache warm) ''apple'' (backend warm) = (Inr 20, 2)
   \<and> fst (GetPriceFor 6100 ''apple'' warm) = Inr 20
   \<and> prices (cache (snd (GetPriceFor 6100 ''apple'' warm)))
       = [''apple'' \<mapsto> AnyPriceCacheEntry \<lparr>price = 20, timestamp = 6100\<rparr>]
   \<and> prices (cache cold) ''apple'' = None
   \<and> actualPriceService (cache cold) ''apple'' (backend cold) = (Inr 10, 1)
   \<and> fst (GetPriceFor 5000 ''apple'' cold) = Inr 10
   \<and> prices (cache (snd (GetPriceFor 5000 ''apple'' cold)))
       = [''apple'' \<mapsto> AnyPriceCacheEntry \<lparr>price = 10, timestamp = 5000\<rparr>]"
proof -
  have a: "prices (cache warm) ''apple'' = None
           \<or> prices (cache warm) ''apple'' = Some (AnyPriceCacheEntry \<lparr>price = 10, timestamp = 5000\<rparr>)
             \<and> 5000 + maxAge (cache warm) \<le> (6100::int)"
    by (simp add: warm_eq)
  have b: "actualPriceService (cache warm) ''apple'' (backend warm) = (Inr 20, 2)"
    by (simp add: warm_eq stub_def)
  have a': "prices (cache cold) ''apple'' = None
            \<or> prices (cache cold) ''apple'' = Some (AnyPriceCacheEntry \<lparr>price = 0, timestamp = 0\<rparr>)
              \<and> 0 + maxAge (cache cold) \<le> (5000::int)"
    by (simp add: cold_def NewTransparentCache_def)
  have b': "actualPriceService (cache cold) ''apple'' (backend cold) = (Inr 10, 1)"
    by (simp add: cold_def NewTransparentCache_def stub_def)
  show ?thesis
    using b b' GetPriceFor_stores_fresh_entry [OF a b] GetPriceFor_stores_fresh_entry [OF a' b']
    by (simp add: warm_eq cold_def NewTransparentCache_def)
qed

text \<open>
  \<^verbatim>\<open>cache.go\<close> stores the bare price (its line 44): the entry has no fetch time.
\<close>

lemma GetPriceFor_todo_stores_price:
  assumes "prices (cache w) k = None"
    and "actualPriceService (cache w) k (backend w) = (Inr p, s)"
  shows "fst (GetPriceFor_todo k w) = Some (Inr p)
         \<and> prices (cache (snd (GetPriceFor_todo k w))) = (prices (cache w))(k \<mapsto> AnyFloat64 p)"
  using assms by (simp add: GetPriceFor_todo_defs)

text \<open>
  C6. After a miss and a price \<open>p\<close> from the service, the entry stored is to hold \<open>p\<close>
  and the time \<open>now\<close> of this call, and \<open>p\<close> is returned. \<^verbatim>\<open>cache.go\<close> returns \<open>p\<close> but
  stores no time. On the cold cache, where \<open>apple\<close> is absent and the stub answers 10, the
  call for \<open>apple\<close> returns 10 and the store then maps \<open>apple\<close> to the bare price 10,
  which is no entry with a fetch time, so that a later call cannot tell the age of what
  it finds. The completed revision, called at 5000 on the same cache, stores
  the entry \<open>(10, 5000)\<close>.
\<close>

theorem GetPriceFor_todo_stores_no_fetch_time:
  "prices (cache cold) ''apple'' = None
   \<and> actualPriceService (cache cold) ''apple'' (backend cold) = (Inr 10, 1)
   \<and> fst (GetPriceFor_todo ''apple'' cold) = Some (Inr 10)
   \<and> prices (cache (snd (GetPriceFor_todo ''apple'' cold))) = [''apple'' \<mapsto> AnyFloat64 10]
   \<and> map_option is_entry (prices (cache (snd (GetPriceFor_todo ''apple'' cold))) ''apple'')
       = Some False
   \<and> fst (GetPriceFor 5000 ''apple'' cold) = Inr 10
   \<and> prices (cache (snd (GetPriceFor 5000 ''apple'' cold)))
       = [''apple'' \<mapsto> AnyPriceCacheEntry \<lparr>price = 10, timestamp = 5000\<rparr>]
   \<and> map_option is_entry (prices (cache (snd (GetPriceFor 5000 ''apple'' cold))) ''apple'')
       = Some True"
  by (simp add: cold_def NewTransparentCache_def stub_def GetPriceFor_defs GetPriceFor_todo_def)

text \<open>
  C7, as stated: the error returned for \<open>k\<close> after a failure of the service wraps the
  upstream error and tells which item code failed. It does neither: line 81 (line 42 of
  \<^verbatim>\<open>cache.go\<close>) formats the message of the upstream error only, with the verb
  \<^verbatim>\<open>%v\<close>. With the stub, which fails alike for \<open>pear\<close> and \<open>plum\<close>, the two calls return
  the same error, its message does not contain \<open>pear\<close>, and it wraps nothing.
\<close>

theorem GetPriceFor_error_names_item_counterexample:
  "fst (GetPriceFor 0 ''pear'' cold) = Inl (errorString ''getting price from service : no such item'')
   \<and> fst (GetPriceFor 0 ''plum'' cold) = fst (GetPriceFor 0 ''pear'' cold)
   \<and> fst (GetPriceFor_todo ''pear'' cold)
       = Some (Inl (errorString ''getting price from service : no such item''))
   \<and> fst (GetPriceFor_todo ''plum'' cold) = fst (GetPriceFor_todo ''pear'' cold)
   \<and> \<not> sublist ''pear'' ''getting price from service : no such item''
   \<and> Unwrap (errorString ''getting price from service : no such item'') = None"
proof -
  have "\<not> sublist ''pear'' ''getting price from service : no such item''"
    by (simp add: sublist_code(3))
  then show ?thesis
    by (simp add: cold_def NewTransparentCache_def stub_def GetPriceFor_defs GetPriceFor_todo_def)
qed

text \<open>
  C7, amended. When the call for \<open>k\<close> reaches the service and the service fails with \<open>e\<close>,
  the error returned is a new error whose message is the fixed text
  \<open>getting price from service : \<close> followed by the message of \<open>e\<close>. So the text of the
  upstream failure is kept; the call adds no item code of its own (the error is built
  from the message of \<open>e\<close> alone, not from \<open>k\<close>); and the error does not hold \<open>e\<close> itself
  (\<^verbatim>\<open>errors.Unwrap\<close> gives nothing). The same holds in \<^verbatim>\<open>cache.go\<close>.
\<close>

theorem GetPriceFor_error_annotation:
  assumes "actualPriceService (cache w) k (backend w) = (Inl e, s)"
  shows "(prices (cache w) k = None
            \<or> prices (cache w) k = Some (AnyPriceCacheEntry \<lparr>price = p0, timestamp = t\<rparr>)
              \<and> t + maxAge (cache w) \<le> now
          \<longrightarrow> (\<exists>r. fst (GetPriceFor now k w) = Inl r
                 \<and> r = errorString (''getting price from service : '' @ Error e)
                 \<and> Error r = ''getting price from service : '' @ Error e
                 \<and> Unwrap r = None))
         \<and> (prices (cache w) k = None
          \<longrightarrow> (\<exists>r. fst (GetPriceFor_todo k w) = Some (Inl r)
                 \<and> r = errorString (''getting price from service : '' @ Error e)
                 \<and> Error r = ''getting price from service : '' @ Error e
                 \<and> Unwrap r = None))"
  using assms by (auto simp add: GetPriceFor_defs GetPriceFor_todo_def)

theorem GetPriceFor_error_annotation_witness:
  "actualPriceService (cache cold) ''pear'' (backend cold) = (Inl (errorString ''no such item''), 1)
   \<and> prices (cache cold) ''pear'' = None
   \<and> (\<exists>r. fst (GetPriceFor 0 ''pear'' cold) = Inl r
            \<and> Error r = ''getting price from service : no such item''
            \<and> Unwrap r = None)
   \<and> (\<exists>r. fst (GetPriceFor_todo ''pear'' cold) = Some (Inl r)
            \<and> Error r = ''getting price from service : no such item''
            \<and> Unwrap r = None)
   \<and> actualPriceService (cache warm_flaky) ''apple'' (backend warm_flaky)
       = (Inl (errorString ''service down''), 2)
   \<and> prices (cache warm_flaky) ''apple'' = Some (AnyPriceCacheEntry \<lparr>price = 7, timestamp = 0\<rparr>)
   \<and> 0 + maxAge (cache warm_flaky) \<le> (5000::int)
   \<and> (\<exists>r. fst (GetPriceFor 5000 ''apple'' warm_flaky) = Inl r
            \<and> Error r = ''getting price from service : service down''
            \<and> Unwrap r = None)"
proof -
  have a: "actualPriceService (cache cold) ''pear'' (backend cold) = (Inl (errorString ''no such item''), 1)"
    by (simp add: cold_def NewTransparentCache_def stub_def)
  have b: "prices (cache cold) ''pear'' = None"
    by (simp add: cold_def NewTransparentCache_def)
  have c: "actualPriceService (cache warm_flaky) ''apple'' (backend warm_flaky)
           = (Inl (errorString ''service down''), 2)"
    by (simp add: warm_flaky_eq flaky_def)
  have d: "prices (cache warm_flaky) ''apple'' = Some (AnyPriceCacheEntry \<lparr>price = 7, timestamp = 0\<rparr>)
           \<and> 0 + maxAge (cache warm_flaky) \<le> (5000::int)"
    by (simp add: warm_flaky_eq)
  show ?thesis
    using a b c d GetPriceFor_error_annotation [OF a, of 0 0 0]
      GetPriceFor_error_annotation [OF c, of 7 0 5000]
    by simp
qed

section \<open>Properties of GetPricesFor\<close>

text \<open>
  \<^verbatim>\<open>cache.go\<close> returns a new, empty slice with the error (its line 75): there the prices
  of the goroutines that succeeded are not returned.
\<close>

lemma GetPricesFor_todo_error_empty:
  "GetPricesFor_todo sched ks w = Some ((rs, Some e), w') \<Longrightarrow> rs = []"
  by (auto simp add: GetPricesFor_todo_eq split: if_splits option.splits)






text \<open>
  C10. With no item code \<^verbatim>\<open>GetPricesFor\<close> returns, under every schedule, an empty slice
  (the nil slice of line 96, of length 0; in \<^verbatim>\<open>cache.go\<close> the empty slice of its line
  53) and no error, and the world is the world before the call: the store is unchanged
  and no call to the service was made.
\<close>

theorem GetPricesFor_no_item_codes:
  "GetPricesFor sched [] w = Some (([], None), w)
   \<and> GetPricesFor_todo sched [] w = Some (([], None), w)"
  by (simp add: GetPricesFor_def GetPricesFor_todo_def spawn_def spawn_todo_def
      run_no_goroutines)

section \<open>Properties of sequences of calls\<close>

text \<open>
  C8. After every sequence of calls of \<^verbatim>\<open>GetPriceFor\<close> and \<^verbatim>\<open>GetPricesFor\<close> on a cache,
  each run to its return, \<^verbatim>\<open>maxAge\<close> and the service of the cache are what they were, so
  the cache differs from the one before at most in its store; and this still holds at
  every moment of a further call of \<^verbatim>\<open>GetPricesFor\<close>, whatever the schedule. The same
  holds for the calls of \<^verbatim>\<open>cache.go\<close>.
\<close>

theorem calls_keep_configuration:
  "(after_calls cs w = Some w'
      \<longrightarrow> maxAge (cache w') = maxAge (cache w)
          \<and> actualPriceService (cache w') = actualPriceService (cache w)
          \<and> cache w' = (cache w)\<lparr>prices := prices (cache w')\<rparr>
          \<and> maxAge (cache (shared (snd (run advance sched (spawn ks w'))))) = maxAge (cache w)
          \<and> actualPriceService (cache (shared (snd (run advance sched (spawn ks w')))))
              = actualPriceService (cache w))
   \<and> (after_calls_todo cs_todo w = Some w'
      \<longrightarrow> maxAge (cache w') = maxAge (cache w)
          \<and> actualPriceService (cache w') = actualPriceService (cache w)
          \<and> cache w' = (cache w)\<lparr>prices := prices (cache w')\<rparr>
          \<and> maxAge (cache (shared (snd (run advance_todo sched (spawn_todo ks w')))))
              = maxAge (cache w)
          \<and> actualPriceService (cache (shared (snd (run advance_todo sched (spawn_todo ks w')))))
              = actualPriceService (cache w))"
proof (intro conjI impI)
  assume "after_calls cs w = Some w'"
  then have a: "same_configuration w w'" by (rule after_calls_configuration)
  have "same_configuration (shared (snd (spawn ks w')))
          (shared (snd (run advance sched (spawn ks w'))))"
    by (rule run_configuration) (rule advance_configuration)
  then have "same_configuration w' (shared (snd (run advance sched (spawn ks w'))))"
    by (simp add: spawn_def)
  then have b: "same_configuration w (shared (snd (run advance sched (spawn ks w'))))"
    by (rule same_configuration_trans [OF a])
  show "maxAge (cache w') = maxAge (cache w)"
    and "actualPriceService (cache w') = actualPriceService (cache w)"
    and "cache w' = (cache w)\<lparr>prices := prices (cache w')\<rparr>"
    using a by (simp_all add: same_configuration_def)
  show "maxAge (cache (shared (snd (run advance sched (spawn ks w'))))) = maxAge (cache w)"
    and "actualPriceService (cache (shared (snd (run advance sched (spawn ks w')))))
         = actualPriceService (cache w)"
    using b by (simp_all add: same_configuration_def)
next
  assume "after_calls_todo cs_todo w = Some w'"
  then have a: "same_configuration w w'" by (rule after_calls_todo_configuration)
  have "same_configuration (shared (snd (spawn_todo ks w')))
          (shared (snd (run advance_todo sched (spawn_todo ks w'))))"
    by (rule run_configuration) (rule advance_todo_configuration)
  then have "same_configuration w' (shared (snd (run advance_todo sched (spawn_todo ks w'))))"
    by (simp add: spawn_todo_def)
  then have b: "same_configuration w (shared (snd (run advance_todo sched (spawn_todo ks w'))))"
    by (rule same_configuration_trans [OF a])
  show "maxAge (cache w') = maxAge (cache w)"
    and "actualPriceService (cache w') = actualPriceService (cache w)"
    and "cache w' = (cache w)\<lparr>prices := prices (cache w')\<rparr>"
    using a by (simp_all add: same_configuration_def)
  show "maxAge (cache (shared (snd (run advance_todo sched (spawn_todo ks w'))))) = maxAge (cache w)"
    and "actualPriceService (cache (shared (snd (run advance_todo sched (spawn_todo ks w')))))
         = actualPriceService (cache w)"
    using b by (simp_all add: same_configuration_def)
qed

theorem calls_keep_configuration_witness:
  "(\<exists>w'. after_calls [CallGetPriceFor 5000 ''apple'',
                      CallGetPricesFor (one_by_one 2 7000) [''apple'', ''pear'']] cold = Some w'
         \<and> maxAge (cache w') = 1000 \<and> actualPriceService (cache w') = stub
         \<and> prices (cache w') ''apple'' = Some (AnyPriceCacheEntry \<lparr>price = 20, timestamp = 7000\<rparr>))
   \<and> (\<exists>w'. after_calls_todo [CallGetPriceFor_todo ''apple'',
                      CallGetPricesFor_todo (one_by_one 2 7000) [''apple'', ''pear'']] cold = Some w'
         \<and> maxAge (cache w') = 1000 \<and> actualPriceService (cache w') = stub
         \<and> prices (cache w') ''apple'' = Some (AnyFloat64 10))"
proof -
  let ?cs = "[CallGetPriceFor 5000 ''apple'',
              CallGetPricesFor (one_by_one 2 7000) [''apple'', ''pear'']]"
  let ?cs_todo = "[CallGetPriceFor_todo ''apple'',
                   CallGetPricesFor_todo (one_by_one 2 7000) [''apple'', ''pear'']]"
  have "\<not> Option.is_none (after_calls ?cs cold)" by code_simp
  then obtain w1 where w1: "after_calls ?cs cold = Some w1"
    by (cases "after_calls ?cs cold") simp_all
  have "map_option (\<lambda>w. prices (cache w) ''apple'') (after_calls ?cs cold)
        = Some (Some (AnyPriceCacheEntry \<lparr>price = 20, timestamp = 7000\<rparr>))"
    by code_simp
  then have p1: "prices (cache w1) ''apple'' = Some (AnyPriceCacheEntry \<lparr>price = 20, timestamp = 7000\<rparr>)"
    using w1 by simp
  have "\<not> Option.is_none (after_calls_todo ?cs_todo cold)" by code_simp
  then obtain w2 where w2: "after_calls_todo ?cs_todo cold = Some w2"
    by (cases "after_calls_todo ?cs_todo cold") simp_all
  have "map_option (\<lambda>w. prices (cache w) ''apple'') (after_calls_todo ?cs_todo cold)
        = Some (Some (AnyFloat64 10))"
    by code_simp
  then have p2: "prices (cache w2) ''apple'' = Some (AnyFloat64 10)"
    using w2 by simp
  have c1: "maxAge (cache w1) = 1000 \<and> actualPriceService (cache w1) = stub"
    using w1 calls_keep_configuration [of ?cs cold w1]
    by (simp add: cold_def NewTransparentCache_def)
  have c2: "maxAge (cache w2) = 1000 \<and> actualPriceService (cache w2) = stub"
    using w2 calls_keep_configuration [of _ cold w2 _ _ ?cs_todo]
    by (simp add: cold_def NewTransparentCache_def)
  show ?thesis using w1 p1 c1 w2 p2 c2 by blast
qed

text \<open>
  C9. After every sequence of calls of \<^verbatim>\<open>GetPriceFor\<close> and \<^verbatim>\<open>GetPricesFor\<close> on a new cache
  (line 54, whose store is empty), every value of the store is a \<^verbatim>\<open>PriceCacheEntry\<close>.
  So the branch of line 69 is never taken: a call of \<^verbatim>\<open>GetPriceFor\<close> does not return
  the error \<open>error when casting\<close>, and in a call of \<^verbatim>\<open>GetPricesFor\<close>, at every moment of
  every schedule, no goroutine holds or has returned that error and it is not the error
  of the group.
\<close>

theorem cast_never_fails:
  assumes "after_calls cs \<lparr>cache = NewTransparentCache svc age, backend = s, upstream_calls = l\<rparr>
           = Some w"
  shows "(\<forall>k v. prices (cache w) k = Some v \<longrightarrow> (\<exists>e. v = AnyPriceCacheEntry e))
         \<and> fst (GetPriceFor now k w) \<noteq> Inl (errorString ''error when casting'')
         \<and> \<not> list_ex casting (resolutions sched ks w)
         \<and> Inl (errorString ''error when casting'') \<notin> set (completions sched ks w)
         \<and> err (snd (run advance sched (spawn ks w))) \<noteq> Some (errorString ''error when casting'')"
proof -
  let ?tks = "fst (run advance sched (spawn ks w))"
  let ?g = "snd (run advance sched (spawn ks w))"
  have oe: "only_entries w"
    by (rule after_calls_entries [OF assms only_entries_new])
  have cf: "\<not> list_ex casting (resolutions sched ks w)"
    using cast_free_call [OF oe] by simp
  have c: "consistent (outcomes ?tks) ?g" by (rule consistent_call)
  have "Finished (Inl (errorString ''error when casting'')) \<notin> set ?tks"
    using cf by (auto simp add: resolutions_def list_ex_iff)
  then have notin: "Inl (errorString ''error when casting'') \<notin> set (returned ?g)"
    using consistent_results(3) [OF c] by (simp add: set_outcomes)
  have "err ?g \<noteq> Some (errorString ''error when casting'')"
  proof
    assume "err ?g = Some (errorString ''error when casting'')"
    then have "first_error (returned ?g) = Some (errorString ''error when casting'')"
      using consistent_results(2) [OF c] by simp
    then show False using first_error_mem notin by blast
  qed
  then show ?thesis
    using only_entries_lookup [OF oe] GetPriceFor_no_cast [OF oe] cf notin
    by (auto simp add: completions_def)
qed

theorem cast_never_fails_witness:
  "\<exists>w. after_calls [CallGetPriceFor 5000 ''apple'',
                    CallGetPricesFor (one_by_one 2 7000) [''apple'', ''pear'']]
         \<lparr>cache = NewTransparentCache stub 1000, backend = 0, upstream_calls = []\<rparr> = Some w
       \<and> prices (cache w) ''apple'' = Some (AnyPriceCacheEntry \<lparr>price = 20, timestamp = 7000\<rparr>)
       \<and> prices (cache w) ''pear'' = None
       \<and> fst (GetPriceFor 7500 ''apple'' w) \<noteq> Inl (errorString ''error when casting'')
       \<and> fst (GetPriceFor 7500 ''pear'' w) \<noteq> Inl (errorString ''error when casting'')"
proof -
  let ?cs = "[CallGetPriceFor 5000 ''apple'',
              CallGetPricesFor (one_by_one 2 7000) [''apple'', ''pear'']]"
  let ?w0 = "\<lparr>cache = NewTransparentCache stub 1000, backend = 0::nat, upstream_calls = []\<rparr>"
  have "\<not> Option.is_none (after_calls ?cs ?w0)" by code_simp
  then obtain w where w: "after_calls ?cs ?w0 = Some w"
    by (cases "after_calls ?cs ?w0") simp_all
  have "map_option (\<lambda>w. (prices (cache w) ''apple'', prices (cache w) ''pear'')) (after_calls ?cs ?w0)
        = Some (Some (AnyPriceCacheEntry \<lparr>price = 20, timestamp = 7000\<rparr>), None)"
    by code_simp
  then have p: "prices (cache w) ''apple'' = Some (AnyPriceCacheEntry \<lparr>price = 20, timestamp = 7000\<rparr>)"
    "prices (cache w) ''pear'' = None"
    using w by simp_all
  have "fst (GetPriceFor 7500 ''apple'' w) \<noteq> Inl (errorString ''error when casting'')"
    "fst (GetPriceFor 7500 ''pear'' w) \<noteq> Inl (errorString ''error when casting'')"
    using cast_never_fails [OF w] by simp_all
  then show ?thesis using w p by blast
qed

end
